theory Spec2Isabelle
  imports Main
begin

section \<open>Python values and strings\<close>

text \<open>
  The three scripts (\<^verbatim>\<open>discovery.py\<close>, \<^verbatim>\<open>monitor_and_duplicate.py\<close>,
  \<^verbatim>\<open>updater.py\<close>) are embedded as HOL functions. Exceptions are values of
  \<open>pyerr\<close>; a function that can raise returns \<open>pyerr + 'a\<close>. Strings are
  \<open>char list\<close>; a character stands for a code point below 256, and the string
  operations below are Python's on such strings.
\<close>

datatype pyerr = ApiError | TypeError | ValueError | FileNotFoundError | JSONDecodeError

text \<open>A value read from JSON where the code does not fix its Python type: an id stored
  as a number or as a string.\<close>

datatype pyval = PInt int | PStr string

definition digit_char :: "nat \<Rightarrow> char" where
  "digit_char d = ''0123456789'' ! d"

fun str_nat :: "nat \<Rightarrow> string" where
  "str_nat n = (if n < 10 then [digit_char n] else str_nat (n div 10) @ [digit_char (n mod 10)])"

declare str_nat.simps [simp del]

text \<open>\<^verbatim>\<open>str(i)\<close> for an integer.\<close>

definition str_int :: "int \<Rightarrow> string" where
  "str_int i = (if i < 0 then CHR ''-'' # str_nat (nat (- i)) else str_nat (nat i))"

text \<open>\<^verbatim>\<open>str(v)\<close>.\<close>

fun py_str :: "pyval \<Rightarrow> string" where
  "py_str (PInt i) = str_int i"
| "py_str (PStr s) = s"

definition is_digit :: "char \<Rightarrow> bool" where
  "is_digit c = (c \<in> set ''0123456789'')"

definition digit_val :: "char \<Rightarrow> int" where
  "digit_val c = int (of_char c) - 48"

text \<open>The characters \<^verbatim>\<open>str.strip()\<close> removes: tab, newline, vertical tab, form feed,
  carriage return, the four separators 28 to 31, the space, the next-line character 133
  and the no-break space 160.\<close>

definition is_space :: "char \<Rightarrow> bool" where
  "is_space c =
     (let n = (of_char c :: nat)
      in (9 \<le> n \<and> n \<le> 13) \<or> (28 \<le> n \<and> n \<le> 32) \<or> n = 133 \<or> n = 160)"

definition py_strip :: "string \<Rightarrow> string" where
  "py_strip s = rev (dropWhile is_space (rev (dropWhile is_space s)))"

text \<open>The lower-case form of a character: the letters A to Z, and the accented capitals
  192 to 222 without the multiplication sign 215.\<close>

definition lower_char :: "char \<Rightarrow> char" where
  "lower_char c =
     (let n = (of_char c :: nat)
      in if (65 \<le> n \<and> n \<le> 90) \<or> (192 \<le> n \<and> n \<le> 222 \<and> n \<noteq> 215) then char_of (n + 32)
         else c)"

text \<open>\<^verbatim>\<open>s.lower()\<close>.\<close>

definition py_lower :: "string \<Rightarrow> string" where
  "py_lower s = map lower_char s"

text \<open>\<^verbatim>\<open>s.startswith(p)\<close>.\<close>

definition starts_with :: "string \<Rightarrow> string \<Rightarrow> bool" where
  "starts_with s p = (take (length p) s = p)"

text \<open>\<^verbatim>\<open>sub in s\<close> for strings.\<close>

fun py_in :: "string \<Rightarrow> string \<Rightarrow> bool" where
  "py_in sub [] = (sub = [])"
| "py_in sub (c # cs) = (starts_with (c # cs) sub \<or> py_in sub cs)"

text \<open>\<^verbatim>\<open>s.replace(old, new)\<close>: every non-overlapping occurrence, from the left; an
  empty \<open>old\<close> matches before every character and at the end.\<close>

fun py_replace :: "string \<Rightarrow> string \<Rightarrow> string \<Rightarrow> string" where
  "py_replace old new [] = (if old = [] then new else [])"
| "py_replace old new (c # cs) =
     (if old = [] then new @ c # py_replace old new cs
      else if starts_with (c # cs) old then new @ py_replace old new (drop (length old) (c # cs))
      else c # py_replace old new cs)"

text \<open>\<^verbatim>\<open>int(s)\<close> for a string, base ten. The whitespace it skips before and after the
  number is narrower than that of \<^verbatim>\<open>strip\<close>: the separators 28 to 31 are not skipped.
  One sign is allowed, single underscores may separate digits, and a number of more than
  4300 digits is refused (the interpreter's default limit). \<open>None\<close> is the
  \<^verbatim>\<open>ValueError\<close>.\<close>

definition is_int_space :: "char \<Rightarrow> bool" where
  "is_int_space c =
     (let n = (of_char c :: nat) in (9 \<le> n \<and> n \<le> 13) \<or> n = 32 \<or> n = 133 \<or> n = 160)"

definition int_strip :: "string \<Rightarrow> string" where
  "int_strip s = rev (dropWhile is_int_space (rev (dropWhile is_int_space s)))"

definition int_max_str_digits :: nat where
  "int_max_str_digits = 4300"

fun parse_dec :: "int \<Rightarrow> string \<Rightarrow> int option" where
  "parse_dec acc [] = Some acc"
| "parse_dec acc [c] = (if is_digit c then Some (acc * 10 + digit_val c) else None)"
| "parse_dec acc (c # d # cs) =
     (if c = CHR ''_'' then (if is_digit d then parse_dec acc (d # cs) else None)
      else if is_digit c then parse_dec (acc * 10 + digit_val c) (d # cs)
      else None)"

definition parse_digits :: "string \<Rightarrow> int option" where
  "parse_digits s =
     (case s of
        [] \<Rightarrow> None
      | c # cs \<Rightarrow>
          if is_digit c \<and> length (filter is_digit s) \<le> int_max_str_digits then parse_dec 0 s
          else None)"

definition py_int :: "string \<Rightarrow> int option" where
  "py_int s =
     (case int_strip s of
        [] \<Rightarrow> None
      | c # cs \<Rightarrow>
          if c = CHR ''-'' then map_option uminus (parse_digits cs)
          else if c = CHR ''+'' then parse_digits cs
          else parse_digits (c # cs))"

subsection \<open>Dictionaries in insertion order\<close>

text \<open>A Python \<^verbatim>\<open>dict\<close> keeps its keys in insertion order and \<^verbatim>\<open>json.dumps\<close> writes
  them in that order, so a dictionary is an association list with distinct keys;
  \<open>map_of\<close> is \<^verbatim>\<open>d.get(k)\<close>.\<close>

text \<open>\<^verbatim>\<open>d[k] = v\<close>.\<close>

fun dict_set :: "('k \<times> 'v) list \<Rightarrow> 'k \<Rightarrow> 'v \<Rightarrow> ('k \<times> 'v) list" where
  "dict_set [] k v = [(k, v)]"
| "dict_set ((k', v') # d) k v = (if k' = k then (k', v) # d else (k', v') # dict_set d k v)"

text \<open>\<^verbatim>\<open>d.setdefault(k, []).append(x)\<close>.\<close>

fun dict_append :: "('k \<times> 'v list) list \<Rightarrow> 'k \<Rightarrow> 'v \<Rightarrow> ('k \<times> 'v list) list" where
  "dict_append [] k x = [(k, [x])]"
| "dict_append ((k', xs) # d) k x =
     (if k' = k then (k', xs @ [x]) # d else (k', xs) # dict_append d k x)"

section \<open>discovery.py\<close>

text \<open>An entry of a workspace or folder listing: the sheet's id, its name and
  \<^verbatim>\<open>modified_at.isoformat()\<close>.\<close>

record sheet_entry =
  sid :: int
  sname :: string
  modified_at :: string

text \<open>What \<^verbatim>\<open>SDK.Folders.get_folder\<close> finds under a folder id: the folder's sheets and
  subfolders, or an exception (\<open>NoAccess\<close>).\<close>

datatype folder = Folder "sheet_entry list" "folder list" | NoAccess

text \<open>The remote store as discovery reads it: the workspace listing (or the exception of
  \<^verbatim>\<open>get_workspace\<close>) and, for every sheet id, its summary fields as (title, display
  value) pairs (or the exception of \<^verbatim>\<open>get_sheet_summary_fields\<close>).\<close>

record store =
  workspace :: "pyerr + (sheet_entry list \<times> folder list)"
  summary_fields :: "int \<Rightarrow> pyerr + (string \<times> string option) list"

text \<open>\<^verbatim>\<open>re.sub(r' - Copy.*$', '', name, flags=re.I).strip()\<close>. The pattern matches at
  the leftmost \<^verbatim>\<open>" - copy"\<close> (any case) that is followed by no newline other than a
  final one, and removes everything up to the end of the line.\<close>

definition copy_tail_ok :: "string \<Rightarrow> bool" where
  "copy_tail_ok t = (CHR 0x0A \<notin> set t \<or> (t \<noteq> [] \<and> last t = CHR 0x0A \<and> CHR 0x0A \<notin> set (butlast t)))"

fun cut_copy :: "string \<Rightarrow> string" where
  "cut_copy [] = []"
| "cut_copy (c # cs) =
     (if starts_with (py_lower (c # cs)) '' - copy'' \<and> copy_tail_ok (drop 7 (c # cs))
      then (if last (c # cs) = CHR 0x0A then [CHR 0x0A] else [])
      else c # cut_copy cs)"

definition normalise :: "string \<Rightarrow> string" where
  "normalise name = py_strip (cut_copy name)"

fun get_folder_sheets_recursive :: "folder \<Rightarrow> sheet_entry list" where
  "get_folder_sheets_recursive NoAccess = []"
| "get_folder_sheets_recursive (Folder sheets folders) =
     sheets @ concat (map get_folder_sheets_recursive folders)"

definition get_all_sheets_recursive :: "store \<Rightarrow> pyerr + sheet_entry list" where
  "get_all_sheets_recursive st =
     (case workspace st of
        Inl e \<Rightarrow> Inl e
      | Inr (sheets, folders) \<Rightarrow> Inr (sheets @ concat (map get_folder_sheets_recursive folders)))"

text \<open>The dictionary comprehension over the summary fields followed by
  \<^verbatim>\<open>summary.get("OriginalSheetId")\<close>: the last field of that title wins.\<close>

definition summary_get :: "(string \<times> string option) list \<Rightarrow> string option" where
  "summary_get flds =
     (case filter (\<lambda>f. fst f = ''OriginalSheetId'') flds of
        [] \<Rightarrow> None
      | f # fs \<Rightarrow> snd (last (f # fs)))"

text \<open>Steps 1 and 2 of the loop body: the group key of a sheet that is not skipped.\<close>

definition group_key :: "store \<Rightarrow> sheet_entry \<Rightarrow> string" where
  "group_key st s =
     (let src_id = (case summary_fields st (sid s) of Inl e \<Rightarrow> None | Inr flds \<Rightarrow> summary_get flds)
      in case src_id of
           Some (c # cs) \<Rightarrow> c # cs
         | _ \<Rightarrow> if py_in ''template'' (py_lower (sname s)) then str_int (sid s)
                else normalise (sname s))"

text \<open>One iteration of the loop of \<^verbatim>\<open>build_index\<close> on the pair (mapping, last_seen).\<close>

definition index_step ::
  "store \<Rightarrow> (string \<times> string) list \<Rightarrow> sheet_entry \<Rightarrow>
   (string \<times> int list) list \<times> (string \<times> string) list \<Rightarrow>
   (string \<times> int list) list \<times> (string \<times> string) list" where
  "index_step st since_cache s acc =
     (let modt = modified_at s;
          last_seen = dict_set (snd acc) (str_int (sid s)) modt
      in if map_of since_cache (str_int (sid s)) = Some modt then (fst acc, last_seen)
         else (dict_append (fst acc) (group_key st s) (sid s), last_seen))"

definition build_index ::
  "store \<Rightarrow> (string \<times> string) list \<Rightarrow>
   pyerr + ((string \<times> int list) list \<times> (string \<times> string) list)" where
  "build_index st since_cache =
     (case get_all_sheets_recursive st of
        Inl e \<Rightarrow> Inl e
      | Inr all_sheets \<Rightarrow> Inr (fold (index_step st since_cache) all_sheets ([], [])))"

section \<open>Remote calls of monitor_and_duplicate.py and updater.py\<close>

text \<open>An attribute of an SDK object: absent (\<^verbatim>\<open>hasattr\<close> is false), \<^verbatim>\<open>None\<close>, or a
  value.\<close>

datatype 'a attr = Missing | Null | Val 'a

record cell =
  display_value :: "string option"
  formula :: "string option"

record row =
  row_id :: int
  cells :: "cell list"

record sheet =
  rows :: "row list"
  columns :: "int list"
  total_row_count :: "int option"

record xref =
  xname :: string
  source_sheet_id :: pyval
  start_row_id :: int
  end_row_id :: int
  start_column_id :: int
  end_column_id :: int

text \<open>The result of \<^verbatim>\<open>list_cross_sheet_references\<close>.\<close>

record refs_result =
  total_count :: "int attr"
  data :: "xref list attr"

text \<open>The calls that go through \<^verbatim>\<open>safe\<close>, with the arguments that identify them
  (the copy request's generated name holds the date and is left out).\<close>

datatype call =
    CopySheet int
  | UpdateSummaryFields int string
  | GetSheet int
  | DeleteRows int "int list"
  | ListRefs int
  | CreateRef int xref
  | UpdateRows int "row list"

text \<open>The lines the scripts print.\<close>

datatype msg =
    ErrorCopying
  | ErrorTagging
  | ErrorDeletingRows
  | Duplicated int int
  | ErrorChecking int
  | NothingToUpdate int
  | WouldUpdate int nat
  | Updated int nat
  | NoRollupsSpecified
  | UsingAutoDetected nat
  | NoAutoConfig
  | NoRollupSheetsFound

text \<open>What a run does, in order: remote calls and printed lines.\<close>

datatype event = Call call | Log msg

text \<open>The remote platform: for every call, the value it returns or the exception it
  raises.\<close>

record remote =
  copy_sheet :: "int \<Rightarrow> pyerr + int"
  update_sheet_summary_fields :: "int \<Rightarrow> string \<Rightarrow> pyerr + unit"
  get_sheet :: "int \<Rightarrow> pyerr + sheet"
  delete_rows :: "int \<Rightarrow> int list \<Rightarrow> pyerr + unit"
  list_cross_sheet_references :: "int \<Rightarrow> pyerr + refs_result"
  create_cross_sheet_reference :: "int \<Rightarrow> xref \<Rightarrow> pyerr + string"
  update_rows :: "int \<Rightarrow> row list \<Rightarrow> pyerr + unit"

text \<open>A file the scripts open and parse.\<close>

datatype 'a json_file = Absent | Malformed | Content 'a

section \<open>monitor_and_duplicate.py\<close>

text \<open>The thresholds read from the environment, with their defaults.\<close>

record thresholds =
  ERR_CELL_LIMIT :: int
  ERR_REF_LIMIT :: int
  ERR_CELLCOUNT_LIMIT :: int

definition default_thresholds :: thresholds where
  "default_thresholds = \<lparr>ERR_CELL_LIMIT = 1, ERR_REF_LIMIT = 95, ERR_CELLCOUNT_LIMIT = 4800000\<rparr>"

text \<open>The row-deleting block of \<^verbatim>\<open>duplicate_blank\<close>, with its own \<^verbatim>\<open>try\<close>.\<close>

definition wipe_rows :: "remote \<Rightarrow> int \<Rightarrow> event list" where
  "wipe_rows R new_id =
     Call (GetSheet new_id) #
     (case get_sheet R new_id of
        Inl e \<Rightarrow> [Log ErrorDeletingRows]
      | Inr sh \<Rightarrow>
          if rows sh \<noteq> [] then
            Call (DeleteRows new_id (map row_id (rows sh))) #
            (case delete_rows R new_id (map row_id (rows sh)) of
               Inl e \<Rightarrow> [Log ErrorDeletingRows]
             | Inr u \<Rightarrow> [])
          else [])"

text \<open>The tagging block of \<^verbatim>\<open>duplicate_blank\<close>, with its own \<^verbatim>\<open>try\<close>.\<close>

definition tag_origin :: "remote \<Rightarrow> int \<Rightarrow> int \<Rightarrow> event list" where
  "tag_origin R new_id src_id =
     Call (UpdateSummaryFields new_id (str_int src_id)) #
     (case update_sheet_summary_fields R new_id (str_int src_id) of
        Inl e \<Rightarrow> [Log ErrorTagging]
      | Inr u \<Rightarrow> [])"

text \<open>\<^verbatim>\<open>duplicate_blank\<close>: the events of the run and the value returned (\<open>None\<close> is
  Python's \<^verbatim>\<open>None\<close>).\<close>

definition duplicate_blank :: "remote \<Rightarrow> int \<Rightarrow> event list \<times> int option" where
  "duplicate_blank R src_id =
     (case copy_sheet R src_id of
        Inl e \<Rightarrow> ([Call (CopySheet src_id), Log ErrorCopying], None)
      | Inr new_id \<Rightarrow>
          (Call (CopySheet src_id) # tag_origin R new_id src_id @ wipe_rows R new_id @
             [Log (Duplicated src_id new_id)],
           Some new_id))"

definition is_err_cell :: "cell \<Rightarrow> bool" where
  "is_err_cell c =
     (case display_value c of None \<Rightarrow> False | Some v \<Rightarrow> v \<noteq> [] \<and> starts_with v ''#'')"

definition err_cells :: "sheet \<Rightarrow> int" where
  "err_cells sh = int (length (filter is_err_cell (concat (map cells (rows sh)))))"

text \<open>\<^verbatim>\<open>(sheet.total_row_count or len(sheet.rows)) * len(sheet.columns)\<close>.\<close>

definition cell_count :: "sheet \<Rightarrow> int" where
  "cell_count sh =
     (case total_row_count sh of
        None \<Rightarrow> int (length (rows sh))
      | Some n \<Rightarrow> if n = 0 then int (length (rows sh)) else n) * int (length (columns sh))"

text \<open>The reference count expression; comparing \<^verbatim>\<open>None\<close> with the limit, or taking
  \<^verbatim>\<open>len(None)\<close>, raises \<^verbatim>\<open>TypeError\<close>.\<close>

definition ref_ct :: "refs_result \<Rightarrow> pyerr + int" where
  "ref_ct refs =
     (case total_count refs of
        Val n \<Rightarrow> Inr n
      | Null \<Rightarrow> Inl TypeError
      | Missing \<Rightarrow>
          (case data refs of
             Val xs \<Rightarrow> Inr (int (length xs))
           | Null \<Rightarrow> Inl TypeError
           | Missing \<Rightarrow> Inr 0))"

text \<open>Step 2 of \<^verbatim>\<open>needs_rollover\<close>: \<open>True\<close> when the reference threshold trips; any
  exception inside the inner \<^verbatim>\<open>try\<close> is passed over.\<close>

definition refs_trip :: "remote \<Rightarrow> thresholds \<Rightarrow> int \<Rightarrow> bool" where
  "refs_trip R cfg sheet_id =
     (case list_cross_sheet_references R sheet_id of
        Inl e \<Rightarrow> False
      | Inr refs \<Rightarrow> (case ref_ct refs of Inl e \<Rightarrow> False | Inr n \<Rightarrow> n \<ge> ERR_REF_LIMIT cfg))"

definition needs_rollover :: "remote \<Rightarrow> thresholds \<Rightarrow> int \<Rightarrow> event list \<times> bool" where
  "needs_rollover R cfg sheet_id =
     (case get_sheet R sheet_id of
        Inl e \<Rightarrow> ([Call (GetSheet sheet_id), Log (ErrorChecking sheet_id)], False)
      | Inr sh \<Rightarrow>
          if err_cells sh \<ge> ERR_CELL_LIMIT cfg then ([Call (GetSheet sheet_id)], True)
          else if refs_trip R cfg sheet_id
            then ([Call (GetSheet sheet_id), Call (ListRefs sheet_id)], True)
          else if cell_count sh \<ge> ERR_CELLCOUNT_LIMIT cfg
            then ([Call (GetSheet sheet_id), Call (ListRefs sheet_id)], True)
          else ([Call (GetSheet sheet_id), Call (ListRefs sheet_id)], False))"

text \<open>\<^verbatim>\<open>max(sheets)\<close> and \<^verbatim>\<open>min(sheets)\<close>; both raise \<^verbatim>\<open>ValueError\<close> on an empty list.\<close>

definition py_max :: "int list \<Rightarrow> pyerr + int" where
  "py_max xs = (case xs of [] \<Rightarrow> Inl ValueError | x # ys \<Rightarrow> Inr (fold (\<lambda>y m. if y > m then y else m) ys x))"

definition py_min :: "int list \<Rightarrow> pyerr + int" where
  "py_min xs = (case xs of [] \<Rightarrow> Inl ValueError | x # ys \<Rightarrow> Inr (fold (\<lambda>y m. if y < m then y else m) ys x))"

text \<open>The sheet \<^verbatim>\<open>monitor_group\<close> passes to \<^verbatim>\<open>duplicate_blank\<close>.\<close>

definition original_sheet_id :: "string \<Rightarrow> int list \<Rightarrow> pyerr + int" where
  "original_sheet_id template_id sheets =
     (case py_int template_id of Some n \<Rightarrow> Inr n | None \<Rightarrow> py_min sheets)"

definition monitor_group ::
  "remote \<Rightarrow> thresholds \<Rightarrow> string \<Rightarrow> int list \<Rightarrow> event list \<times> (pyerr + unit)" where
  "monitor_group R cfg template_id sheets =
     (case py_max sheets of
        Inl e \<Rightarrow> ([], Inl e)
      | Inr latest \<Rightarrow>
          (case needs_rollover R cfg latest of
             (ev, False) \<Rightarrow> (ev, Inr ())
           | (ev, True) \<Rightarrow>
               (case original_sheet_id template_id sheets of
                  Inl e \<Rightarrow> (ev, Inl e)
                | Inr orig \<Rightarrow> (ev @ fst (duplicate_blank R orig), Inr ()))))"

text \<open>\<^verbatim>\<open>main\<close> of the monitor up to \<^verbatim>\<open>asyncio.gather\<close>, given what \<^verbatim>\<open>mapping.json\<close>
  holds: the exception it ends with, or the groups whose \<^verbatim>\<open>monitor_group\<close> coroutines it
  hands to \<^verbatim>\<open>gather\<close>. The coroutines then run interleaved, and one that raises ends the
  run while the others are under way; that part is not modelled.\<close>

definition monitor_main ::
  "(string \<times> int list) list json_file \<Rightarrow> event list \<times> (pyerr + (string \<times> int list) list)" where
  "monitor_main mapping_json =
     (case mapping_json of
        Absent \<Rightarrow> ([], Inl FileNotFoundError)
      | Malformed \<Rightarrow> ([], Inl JSONDecodeError)
      | Content mapping \<Rightarrow> ([], Inr mapping))"

section \<open>updater.py\<close>

text \<open>\<^verbatim>\<open>chunked(it, n)\<close>: lists of \<open>n\<close> items until the first empty one.\<close>

function chunked :: "nat \<Rightarrow> 'a list \<Rightarrow> 'a list list" where
  "chunked n xs = (if n = 0 \<or> xs = [] then [] else take n xs # chunked n (drop n xs))"
  by pat_completeness auto
termination
  by (relation "measure (\<lambda>(n, xs). length xs)") auto

declare chunked.simps [simp del]

text \<open>\<^verbatim>\<open>sep.join(xs)\<close>.\<close>

fun py_join :: "string \<Rightarrow> string list \<Rightarrow> string" where
  "py_join sep [] = []"
| "py_join sep [x] = x"
| "py_join sep (x # y # ys) = x @ sep @ py_join sep (y # ys)"

definition not_brace :: "char \<Rightarrow> bool" where
  "not_brace c = (c \<noteq> CHR ''{'' \<and> c \<noteq> CHR ''}'')"

text \<open>\<^verbatim>\<open>re.findall(r'\{([^{}]+)\}', s)\<close>: at an opening brace, the longest run of
  characters other than braces; it is a token when it is not empty and a closing brace
  follows it, and the scan goes on behind that brace.\<close>

function find_tokens :: "string \<Rightarrow> string list" where
  "find_tokens [] = []"
| "find_tokens (c # cs) =
     (if c = CHR ''{'' \<and> takeWhile not_brace cs \<noteq> [] \<and>
         starts_with (dropWhile not_brace cs) ''}''
      then takeWhile not_brace cs # find_tokens (drop 1 (dropWhile not_brace cs))
      else find_tokens cs)"
  by pat_completeness auto
termination
  by (relation "measure length") (auto simp: length_dropWhile_le less_Suc_eq_le intro: le_trans [OF diff_le_self])

text \<open>The formulas of the sheet's cells, in row and cell order, without the empty
  ones.\<close>

definition cell_formula :: "cell \<Rightarrow> string option" where
  "cell_formula c = (case formula c of Some (x # xs) \<Rightarrow> Some (x # xs) | _ \<Rightarrow> None)"

definition formulas :: "sheet \<Rightarrow> string list" where
  "formulas sh = List.map_filter cell_formula (concat (map cells (rows sh)))"

definition active_tokens :: "sheet \<Rightarrow> string list" where
  "active_tokens sh = find_tokens (py_join '' '' (formulas sh))"

text \<open>\<^verbatim>\<open>refs_result.data if hasattr(refs_result, 'data') else refs_result\<close>, as the
  loops iterate over it: only a list can be iterated.\<close>

definition refs_of :: "refs_result \<Rightarrow> pyerr + xref list" where
  "refs_of rr = (case data rr of Val xs \<Rightarrow> Inr xs | _ \<Rightarrow> Inl TypeError)"

text \<open>The dictionary from source sheet id to the references used in formulas.\<close>

definition src_to_refs :: "string list \<Rightarrow> xref list \<Rightarrow> (pyval \<times> xref list) list" where
  "src_to_refs active refs =
     fold (\<lambda>r d. if xname r \<in> set active then dict_append d (source_sheet_id r) r else d) refs []"

text \<open>\<^verbatim>\<open>dup[-4:]\<close>: the last four characters of a string; an integer cannot be
  subscripted.\<close>

fun last4 :: "pyval \<Rightarrow> pyerr + string" where
  "last4 (PStr s) = Inr (drop (length s - 4) s)"
| "last4 (PInt i) = Inl TypeError"

text \<open>The dictionary of properties passed to \<^verbatim>\<open>SDK.models.CrossSheetReference\<close>.\<close>

definition dup_ref :: "xref \<Rightarrow> pyval \<Rightarrow> string \<Rightarrow> xref" where
  "dup_ref ref dup suffix =
     \<lparr>xname = xname ref @ ''-dup-'' @ suffix, source_sheet_id = dup,
      start_row_id = start_row_id ref, end_row_id = end_row_id ref,
      start_column_id = start_column_id ref, end_column_id = end_column_id ref\<rparr>"

text \<open>\<^verbatim>\<open>SDK.models.CrossSheetReference(props)\<close>, the model class of the SDK (the SDK is
  not part of the repository). Its \<^verbatim>\<open>source_sheet_id\<close> is a number field: a value that
  is not a number raises \<^verbatim>\<open>ValueError\<close>.\<close>

definition cross_sheet_reference :: "xref \<Rightarrow> pyerr + xref" where
  "cross_sheet_reference props =
     (case source_sheet_id props of PInt n \<Rightarrow> Inr props | PStr s \<Rightarrow> Inl ValueError)"

text \<open>The innermost loop of step 2, \<^verbatim>\<open>for ref in ref_list\<close>: the arguments of the call
  are evaluated first (the name, then the model object), then the call is made, then the
  returned name is recorded.\<close>

fun clone_refs ::
  "remote \<Rightarrow> int \<Rightarrow> pyval \<Rightarrow> xref list \<Rightarrow> (string \<times> string list) list \<Rightarrow>
   event list \<times> (pyerr + (string \<times> string list) list)" where
  "clone_refs R rollup_id dup [] repl_map = ([], Inr repl_map)"
| "clone_refs R rollup_id dup (ref # ref_list) repl_map =
     (case last4 dup of
        Inl e \<Rightarrow> ([], Inl e)
      | Inr suffix \<Rightarrow>
          (case cross_sheet_reference (dup_ref ref dup suffix) of
             Inl e \<Rightarrow> ([], Inl e)
           | Inr req \<Rightarrow>
               (case create_cross_sheet_reference R rollup_id req of
                  Inl e \<Rightarrow> ([Call (CreateRef rollup_id req)], Inl e)
                | Inr new_name \<Rightarrow>
                    (case clone_refs R rollup_id dup ref_list
                            (dict_append repl_map (xname ref) new_name) of
                       (ev, res) \<Rightarrow> (Call (CreateRef rollup_id req) # ev, res)))))"

text \<open>\<^verbatim>\<open>for dup in dup_ids\<close>.\<close>

fun clone_dups ::
  "remote \<Rightarrow> int \<Rightarrow> pyval list \<Rightarrow> xref list \<Rightarrow> pyval list \<Rightarrow> (string \<times> string list) list \<Rightarrow>
   event list \<times> (pyerr + (string \<times> string list) list)" where
  "clone_dups R rollup_id sources ref_list [] repl_map = ([], Inr repl_map)"
| "clone_dups R rollup_id sources ref_list (dup # dup_ids) repl_map =
     (if dup \<in> set sources then clone_dups R rollup_id sources ref_list dup_ids repl_map
      else
        (case clone_refs R rollup_id dup ref_list repl_map of
           (ev, Inl e) \<Rightarrow> (ev, Inl e)
         | (ev, Inr repl_map') \<Rightarrow>
             (case clone_dups R rollup_id sources ref_list dup_ids repl_map' of
                (ev', res) \<Rightarrow> (ev @ ev', res))))"

text \<open>\<^verbatim>\<open>mapping.get(str(src_id), [])[1:]\<close>.\<close>

definition dup_ids_of :: "(string \<times> pyval list) list \<Rightarrow> pyval \<Rightarrow> pyval list" where
  "dup_ids_of mapping src_id =
     drop 1 (case map_of mapping (py_str src_id) of None \<Rightarrow> [] | Some ids \<Rightarrow> ids)"

text \<open>\<^verbatim>\<open>for src_id, ref_list in src_to_refs.items()\<close>.\<close>

fun clone_sources ::
  "remote \<Rightarrow> int \<Rightarrow> (string \<times> pyval list) list \<Rightarrow> pyval list \<Rightarrow>
   (pyval \<times> xref list) list \<Rightarrow> (string \<times> string list) list \<Rightarrow>
   event list \<times> (pyerr + (string \<times> string list) list)" where
  "clone_sources R rollup_id mapping sources [] repl_map = ([], Inr repl_map)"
| "clone_sources R rollup_id mapping sources ((src_id, ref_list) # rest) repl_map =
     (case clone_dups R rollup_id sources ref_list (dup_ids_of mapping src_id) repl_map of
        (ev, Inl e) \<Rightarrow> (ev, Inl e)
      | (ev, Inr repl_map') \<Rightarrow>
          (case clone_sources R rollup_id mapping sources rest repl_map' of
             (ev', res) \<Rightarrow> (ev @ ev', res)))"

definition token :: "string \<Rightarrow> string" where
  "token nm = ''{'' @ nm @ ''}''"

text \<open>The body of the inner loop of \<^verbatim>\<open>patched\<close>.\<close>

definition patch_one :: "string \<Rightarrow> string \<Rightarrow> string \<Rightarrow> string" where
  "patch_one old new out =
     (if py_in (token new) out then out
      else py_replace (token old) (token old @ '', '' @ token new) out)"

definition patched :: "(string \<times> string list) list \<Rightarrow> string \<Rightarrow> string" where
  "patched repl_map text = fold (\<lambda>(old, news) out. fold (patch_one old) news out) repl_map text"

text \<open>The loop that builds \<^verbatim>\<open>updates\<close>: a cell with a formula gets the patched text,
  and a row is queued when one of its cells changed.\<close>

definition patch_cell :: "(string \<times> string list) list \<Rightarrow> cell \<Rightarrow> cell" where
  "patch_cell repl_map c =
     (case cell_formula c of None \<Rightarrow> c | Some f \<Rightarrow> c\<lparr>formula := Some (patched repl_map f)\<rparr>)"

definition cell_changed :: "(string \<times> string list) list \<Rightarrow> cell \<Rightarrow> bool" where
  "cell_changed repl_map c =
     (case cell_formula c of None \<Rightarrow> False | Some f \<Rightarrow> patched repl_map f \<noteq> f)"

definition updates :: "(string \<times> string list) list \<Rightarrow> sheet \<Rightarrow> row list" where
  "updates repl_map sh =
     map (\<lambda>r. r\<lparr>cells := map (patch_cell repl_map) (cells r)\<rparr>)
       (filter (\<lambda>r. list_ex (cell_changed repl_map) (cells r)) (rows sh))"

text \<open>Step 4 without dry-run: one \<^verbatim>\<open>update_rows\<close> call for each chunk, stopping at the
  first exception.\<close>

fun send_chunks :: "remote \<Rightarrow> int \<Rightarrow> row list list \<Rightarrow> event list \<times> (pyerr + unit)" where
  "send_chunks R rollup_id [] = ([], Inr ())"
| "send_chunks R rollup_id (chunk # chunks) =
     (case update_rows R rollup_id chunk of
        Inl e \<Rightarrow> ([Call (UpdateRows rollup_id chunk)], Inl e)
      | Inr u \<Rightarrow>
          (case send_chunks R rollup_id chunks of
             (ev, res) \<Rightarrow> (Call (UpdateRows rollup_id chunk) # ev, res)))"

text \<open>Steps 3 and 4, once \<open>repl_map\<close> is not empty.\<close>

definition write_back ::
  "remote \<Rightarrow> int \<Rightarrow> bool \<Rightarrow> (string \<times> string list) list \<Rightarrow> sheet \<Rightarrow>
   event list \<times> (pyerr + unit)" where
  "write_back R rollup_id dry repl_map sh =
     (if dry then ([Log (WouldUpdate rollup_id (length (updates repl_map sh)))], Inr ())
      else
        (case send_chunks R rollup_id (chunked 490 (updates repl_map sh)) of
           (ev, Inl e) \<Rightarrow> (ev, Inl e)
         | (ev, Inr u) \<Rightarrow> (ev @ [Log (Updated rollup_id (length (updates repl_map sh)))], Inr ())))"

text \<open>Step 2 on the fetched references and sheet.\<close>

definition clone_missing ::
  "remote \<Rightarrow> int \<Rightarrow> (string \<times> pyval list) list \<Rightarrow> xref list \<Rightarrow> sheet \<Rightarrow>
   event list \<times> (pyerr + (string \<times> string list) list)" where
  "clone_missing R rollup_id mapping refs sh =
     clone_sources R rollup_id mapping (map source_sheet_id refs)
       (src_to_refs (active_tokens sh) refs) []"

definition process_rollup ::
  "remote \<Rightarrow> int \<Rightarrow> (string \<times> pyval list) list \<Rightarrow> bool \<Rightarrow> event list \<times> (pyerr + unit)" where
  "process_rollup R rollup_id mapping dry =
     (case list_cross_sheet_references R rollup_id of
        Inl e \<Rightarrow> ([Call (ListRefs rollup_id)], Inl e)
      | Inr refs_result \<Rightarrow>
          (case get_sheet R rollup_id of
             Inl e \<Rightarrow> ([Call (ListRefs rollup_id), Call (GetSheet rollup_id)], Inl e)
           | Inr sh \<Rightarrow>
               (case refs_of refs_result of
                  Inl e \<Rightarrow> ([Call (ListRefs rollup_id), Call (GetSheet rollup_id)], Inl e)
                | Inr refs \<Rightarrow>
                    (case clone_missing R rollup_id mapping refs sh of
                       (ev, Inl e) \<Rightarrow>
                         (Call (ListRefs rollup_id) # Call (GetSheet rollup_id) # ev, Inl e)
                     | (ev, Inr repl_map) \<Rightarrow>
                         if repl_map = [] then
                           (Call (ListRefs rollup_id) # Call (GetSheet rollup_id) # ev @
                              [Log (NothingToUpdate rollup_id)], Inr ())
                         else
                           (case write_back R rollup_id dry repl_map sh of
                              (ev', res) \<Rightarrow>
                                (Call (ListRefs rollup_id) # Call (GetSheet rollup_id) # ev @ ev',
                                 res))))))"

text \<open>\<^verbatim>\<open>s.split(",")\<close>.\<close>

fun split_comma :: "string \<Rightarrow> string list" where
  "split_comma [] = [[]]"
| "split_comma (c # cs) =
     (if c = CHR '','' then [] # split_comma cs
      else (case split_comma cs of [] \<Rightarrow> [[c]] | p # ps \<Rightarrow> (c # p) # ps))"

text \<open>\<^verbatim>\<open>[int(x) for x in xs]\<close>: the first string that does not parse raises.\<close>

fun ints_of :: "string list \<Rightarrow> pyerr + int list" where
  "ints_of [] = Inr []"
| "ints_of (x # xs) =
     (case py_int x of
        None \<Rightarrow> Inl ValueError
      | Some n \<Rightarrow> (case ints_of xs of Inl e \<Rightarrow> Inl e | Inr ns \<Rightarrow> Inr (n # ns)))"

text \<open>The command line and the files \<^verbatim>\<open>main\<close> of the updater reads: the file named by
  \<^verbatim>\<open>--mapping\<close>, \<^verbatim>\<open>auto_rollup_config.json\<close> (its \<^verbatim>\<open>auto_detected_rollup_ids\<close> entry,
  when it has one), and the lines of the file named after \<^verbatim>\<open>@\<close>.\<close>

record updater_input =
  mapping_json :: "(string \<times> pyval list) list json_file"
  rollups_arg :: "string option"
  dry_run :: bool
  auto_rollup_config :: "int list option json_file"
  rollups_file :: "string \<Rightarrow> string list option"

text \<open>The part of \<^verbatim>\<open>main\<close> before \<^verbatim>\<open>asyncio.gather\<close>: the printed lines, and then an
  exception, an early \<^verbatim>\<open>return\<close> (\<open>None\<close>), or the mapping and the rollup ids to process.\<close>

definition read_inputs ::
  "updater_input \<Rightarrow> event list \<times> (pyerr + ((string \<times> pyval list) list \<times> int list) option)" where
  "read_inputs inp =
     (case mapping_json inp of
        Absent \<Rightarrow> ([], Inl FileNotFoundError)
      | Malformed \<Rightarrow> ([], Inl JSONDecodeError)
      | Content mapping \<Rightarrow>
          (case rollups_arg inp of
             None \<Rightarrow> ([Log NoRollupsSpecified], Inr None)
           | Some arg \<Rightarrow>
               if arg = [] then ([Log NoRollupsSpecified], Inr None)
               else if arg = ''auto'' then
                 (case auto_rollup_config inp of
                    Absent \<Rightarrow> ([Log NoAutoConfig], Inr None)
                  | Malformed \<Rightarrow> ([], Inl JSONDecodeError)
                  | Content ids \<Rightarrow>
                      (let rollups = (case ids of None \<Rightarrow> [] | Some xs \<Rightarrow> xs)
                       in if rollups = []
                          then ([Log (UsingAutoDetected 0), Log NoRollupSheetsFound], Inr None)
                          else ([Log (UsingAutoDetected (length rollups))], Inr (Some (mapping, rollups)))))
               else if starts_with arg ''@'' then
                 (case rollups_file inp (drop 1 arg) of
                    None \<Rightarrow> ([], Inl FileNotFoundError)
                  | Some lines \<Rightarrow>
                      (case ints_of lines of
                         Inl e \<Rightarrow> ([], Inl e)
                       | Inr rollups \<Rightarrow>
                           if rollups = [] then ([Log NoRollupSheetsFound], Inr None)
                           else ([], Inr (Some (mapping, rollups)))))
               else
                 (case ints_of (split_comma arg) of
                    Inl e \<Rightarrow> ([], Inl e)
                  | Inr rollups \<Rightarrow>
                      if rollups = [] then ([Log NoRollupSheetsFound], Inr None)
                      else ([], Inr (Some (mapping, rollups))))))"

text \<open>\<^verbatim>\<open>main\<close> of the updater up to \<^verbatim>\<open>asyncio.gather\<close>: the exception it ends with, an
  early \<^verbatim>\<open>return\<close> (\<open>None\<close>), or the arguments of the \<^verbatim>\<open>process_rollup\<close> coroutines it
  hands to \<^verbatim>\<open>gather\<close>, whose interleaved run is not modelled.\<close>

definition updater_main ::
  "updater_input \<Rightarrow>
   event list \<times> (pyerr + (int \<times> (string \<times> pyval list) list \<times> bool) list option)" where
  "updater_main inp =
     (case read_inputs inp of
        (ev, Inl e) \<Rightarrow> (ev, Inl e)
      | (ev, Inr None) \<Rightarrow> (ev, Inr None)
      | (ev, Inr (Some (mapping, rollups))) \<Rightarrow>
          (ev, Inr (Some (map (\<lambda>r. (r, mapping, dry_run inp)) rollups))))"

section \<open>Notions used to state the properties\<close>

text \<open>The exception raised while the request for a reference into \<open>dup\<close> is built: an
  integer cannot be subscripted, and a string is not a number for the model class.\<close>

fun request_error :: "pyval \<Rightarrow> pyerr" where
  "request_error (PInt n) = TypeError"
| "request_error (PStr s) = ValueError"

text \<open>The duplicates step 2 has to create references for, in the order in which it meets
  them: those of the sources of active references that no reference of the rollup points
  at.\<close>

definition missing_dups ::
  "(string \<times> pyval list) list \<Rightarrow> pyval list \<Rightarrow> (pyval \<times> xref list) list \<Rightarrow> pyval list" where
  "missing_dups mapping sources srcs =
     concat (map (\<lambda>(src_id, ref_list).
       if ref_list = [] then [] else filter (\<lambda>dup. dup \<notin> set sources) (dup_ids_of mapping src_id)) srcs)"

text \<open>A reference name without braces, as the pattern of \<^verbatim>\<open>re.findall\<close> yields them.\<close>

definition brace_free :: "string \<Rightarrow> bool" where
  "brace_free nm = list_all not_brace nm"

text \<open>The (old, new) pairs in the order in which the two loops of \<^verbatim>\<open>patched\<close> visit
  them.\<close>

definition repl_pairs :: "(string \<times> string list) list \<Rightarrow> (string \<times> string) list" where
  "repl_pairs repl_map = concat (map (\<lambda>(old, news). map (Pair old) news) repl_map)"

text \<open>A text on which the step for (old, new) has nothing left to do.\<close>

definition settled :: "string \<Rightarrow> string \<Rightarrow> string \<Rightarrow> bool" where
  "settled old new out = (py_in (token new) out \<or> \<not> py_in (token old) out)"

section \<open>Example inputs\<close>

text \<open>A workspace with a template in the workspace itself and a tagged copy of it in a
  folder, beside a folder that cannot be read.\<close>

definition ex_store :: store where
  "ex_store =
     \<lparr>workspace = Inr ([\<lparr>sid = 1001, sname = ''Budget Template'', modified_at = ''2024-01-01T00:00:00''\<rparr>],
        [Folder [\<lparr>sid = 1002, sname = ''Budget - Copy'', modified_at = ''2024-01-02T00:00:00''\<rparr>] [NoAccess]]),
      summary_fields = (\<lambda>i. if i = 1002 then Inr [(''OriginalSheetId'', Some ''1001'')] else Inl ApiError)\<rparr>"

text \<open>A rollup sheet (id 5000) with one formula over the reference \<^verbatim>\<open>BudgetRef\<close> into
  sheet 1001, on a platform that creates every reference it is asked for and accepts
  every row update.\<close>

definition ex_ref :: xref where
  "ex_ref = \<lparr>xname = ''BudgetRef'', source_sheet_id = PInt 1001, start_row_id = 1,
     end_row_id = 9, start_column_id = 11, end_column_id = 12\<rparr>"

definition ex_sheet :: sheet where
  "ex_sheet =
     \<lparr>rows = [\<lparr>row_id = 1, cells = [\<lparr>display_value = Some ''42'', formula = Some ''=SUM({BudgetRef})''\<rparr>]\<rparr>,
              \<lparr>row_id = 2, cells = [\<lparr>display_value = Some ''7'', formula = None\<rparr>]\<rparr>],
      columns = [11], total_row_count = Some 2\<rparr>"

definition ex_remote :: remote where
  "ex_remote =
     \<lparr>copy_sheet = (\<lambda>i. Inl ApiError),
      update_sheet_summary_fields = (\<lambda>i v. Inl ApiError),
      get_sheet = (\<lambda>i. if i = 5000 then Inr ex_sheet else Inl ApiError),
      delete_rows = (\<lambda>i ids. Inl ApiError),
      list_cross_sheet_references = (\<lambda>i. Inr \<lparr>total_count = Val 1, data = Val [ex_ref]\<rparr>),
      create_cross_sheet_reference = (\<lambda>i r. Inr (xname r)),
      update_rows = (\<lambda>i rs. Inr ())\<rparr>"

text \<open>A platform for the monitor: sheet 1002 has no error cell but 2400000 rows of two
  columns, its references cannot be listed, sheet 1001 can be copied (the copy is 7001),
  and neither tagging nor deleting rows works.\<close>

definition big_sheet :: sheet where
  "big_sheet =
     \<lparr>rows = [\<lparr>row_id = 1, cells = [\<lparr>display_value = Some ''42'', formula = None\<rparr>]\<rparr>],
      columns = [11, 12], total_row_count = Some 2400000\<rparr>"

definition mon_remote :: remote where
  "mon_remote =
     \<lparr>copy_sheet = (\<lambda>i. if i = 1001 then Inr 7001 else Inl ApiError),
      update_sheet_summary_fields = (\<lambda>i v. Inl ApiError),
      get_sheet = (\<lambda>i. if i = 1002 then Inr big_sheet else if i = 7001 then Inr ex_sheet
                         else Inl ApiError),
      delete_rows = (\<lambda>i ids. Inl ApiError),
      list_cross_sheet_references = (\<lambda>i. Inl ApiError),
      create_cross_sheet_reference = (\<lambda>i r. Inl ApiError),
      update_rows = (\<lambda>i rs. Inl ApiError)\<rparr>"

text \<open>A command line of the updater whose mapping file does not exist.\<close>

definition ex_input :: updater_input where
  "ex_input =
     \<lparr>mapping_json = Absent, rollups_arg = Some ''5000'', dry_run = True,
      auto_rollup_config = Absent, rollups_file = (\<lambda>p. None)\<rparr>"

section \<open>Decimal strings\<close>

lemma digit_char_inj: "a < 10 \<Longrightarrow> b < 10 \<Longrightarrow> digit_char a = digit_char b \<Longrightarrow> a = b"
proof -
  assume a: "a < 10" and b: "b < 10" and e: "digit_char a = digit_char b"
  have A: "a \<in> {0,1,2,3,4,5,6,7,8,9}" using a by auto
  have B: "b \<in> {0,1,2,3,4,5,6,7,8,9}" using b by auto
  show ?thesis using A B e by (auto simp: digit_char_def)
qed

lemma digit_char_not_minus: "a < 10 \<Longrightarrow> digit_char a \<noteq> CHR ''-''"
proof -
  assume a: "a < 10"
  have A: "a \<in> {0,1,2,3,4,5,6,7,8,9}" using a by auto
  show ?thesis using A by (auto simp: digit_char_def)
qed

lemma str_nat_small: "n < 10 \<Longrightarrow> str_nat n = [digit_char n]"
  by (subst str_nat.simps) simp

lemma str_nat_big: "\<not> n < 10 \<Longrightarrow> str_nat n = str_nat (n div 10) @ [digit_char (n mod 10)]"
  by (subst str_nat.simps) simp

lemma str_nat_nonempty: "str_nat n \<noteq> []"
  by (subst str_nat.simps) simp

lemma str_nat_inj: "str_nat n = str_nat m \<Longrightarrow> n = m"
proof (induction n arbitrary: m rule: str_nat.induct)
  case (1 n)
  show ?case
  proof (cases "n < 10")
    case True
    note n = this
    show ?thesis
    proof (cases "m < 10")
      case True
      with n 1(2) show ?thesis by (simp add: digit_char_inj add: str_nat_small)
    next
      case False
      with n 1(2) str_nat_nonempty [of "m div 10"] show ?thesis
        by (simp add: str_nat_small str_nat_big)
    qed
  next
    case False
    note n = this
    show ?thesis
    proof (cases "m < 10")
      case True
      with n 1(2) str_nat_nonempty [of "n div 10"] show ?thesis
        by (simp add: str_nat_small str_nat_big)
    next
      case False
      with n 1(2) have e: "str_nat (n div 10) = str_nat (m div 10)"
        and d: "digit_char (n mod 10) = digit_char (m mod 10)"
        by (simp_all add: str_nat_big)
      from 1(1) [OF n e] have "n div 10 = m div 10" .
      moreover from d have "n mod 10 = m mod 10" by (intro digit_char_inj) simp_all
      ultimately show ?thesis by (metis div_mult_mod_eq)
    qed
  qed
qed

lemma str_nat_hd: "hd (str_nat n) \<noteq> CHR ''-''"
proof (induction n rule: str_nat.induct)
  case (1 n)
  show ?case
  proof (cases "n < 10")
    case True
    then show ?thesis by (simp add: str_nat_small digit_char_not_minus)
  next
    case False
    with 1 str_nat_nonempty [of "n div 10"] show ?thesis
      by (simp add: str_nat_big)
  qed
qed

lemma str_int_inj: "str_int i = str_int j \<Longrightarrow> i = j"
proof -
  assume e: "str_int i = str_int j"
  have h: "\<And>n. str_nat n \<noteq> CHR ''-'' # t" for t
    using str_nat_hd by (metis list.sel(1))
  show ?thesis
  proof (cases "i < 0")
    case True
    note i = this
    show ?thesis
    proof (cases "j < 0")
      case True
      with i e have "nat (- i) = nat (- j)" by (auto simp: str_int_def dest: str_nat_inj)
      with i True show ?thesis by simp
    next
      case False
      with i e h [of "nat j" "str_nat (nat (- i))"] show ?thesis by (simp add: str_int_def)
    qed
  next
    case False
    note i = this
    show ?thesis
    proof (cases "j < 0")
      case True
      with i e h [of "nat i" "str_nat (nat (- j))"] show ?thesis by (simp add: str_int_def)
    next
      case False
      with i e have "nat i = nat j" by (auto simp: str_int_def dest: str_nat_inj)
      with i False show ?thesis by simp
    qed
  qed
qed

section \<open>The change cache of build_index\<close>

lemma map_of_dict_set: "map_of (dict_set d k v) = (map_of d)(k \<mapsto> v)"
  by (induction d) (auto simp: fun_eq_iff)

lemma map_fst_dict_set:
  "map fst (dict_set d k v) = (if k \<in> set (map fst d) then map fst d else map fst d @ [k])"
proof (induction d)
  case Nil
  show ?case by simp
next
  case (Cons a d)
  obtain k' v' where a: "a = (k', v')" by (cases a)
  show ?case
  proof (cases "k' = k")
    case True
    with a show ?thesis by simp
  next
    case False
    with a Cons show ?thesis by simp
  qed
qed

lemma keys_dict_set: "set (map fst (dict_set d k v)) = insert k (set (map fst d))"
  unfolding map_fst_dict_set by auto

lemma distinct_dict_set: "distinct (map fst d) \<Longrightarrow> distinct (map fst (dict_set d k v))"
  unfolding map_fst_dict_set by auto

lemma snd_index_step:
  "snd (index_step st c s acc) = dict_set (snd acc) (str_int (sid s)) (modified_at s)"
  by (simp add: index_step_def Let_def)

lemma keys_fold_index_step:
  "set (map fst (snd (fold (index_step st c) xs acc))) =
   set (map fst (snd acc)) \<union> (\<lambda>s. str_int (sid s)) ` set xs"
proof (induction xs arbitrary: acc)
  case Nil
  show ?case by simp
next
  case (Cons x xs)
  show ?case
    unfolding fold_simps Cons.IH snd_index_step keys_dict_set by auto
qed

lemma distinct_fold_index_step:
  "distinct (map fst (snd acc)) \<Longrightarrow> distinct (map fst (snd (fold (index_step st c) xs acc)))"
proof (induction xs arbitrary: acc)
  case Nil
  then show ?case by simp
next
  case (Cons x xs)
  have "distinct (map fst (snd (index_step st c x acc)))"
    unfolding snd_index_step using Cons.prems by (rule distinct_dict_set)
  from Cons.IH [OF this] show ?case by simp
qed

lemma lookup_fold_index_step:
  assumes "s \<in> set xs"
    and "\<forall>s' \<in> set xs. sid s' = sid s \<longrightarrow> modified_at s' = modified_at s"
  shows "map_of (snd (fold (index_step st c) xs acc)) (str_int (sid s)) = Some (modified_at s)"
  using assms
proof (induction xs arbitrary: acc rule: rev_induct)
  case Nil
  then show ?case by simp
next
  case (snoc x xs)
  show ?case
  proof (cases "sid x = sid s")
    case True
    with snoc.prems(2) have "modified_at x = modified_at s" by simp
    with True show ?thesis by (simp add: snd_index_step map_of_dict_set)
  next
    case False
    then have ne: "str_int (sid x) \<noteq> str_int (sid s)" using str_int_inj by blast
    from False snoc.prems(1) have "s \<in> set xs" by auto
    moreover from snoc.prems(2) have "\<forall>s' \<in> set xs. sid s' = sid s \<longrightarrow> modified_at s' = modified_at s"
      by simp
    ultimately have "map_of (snd (fold (index_step st c) xs acc)) (str_int (sid s)) = Some (modified_at s)"
      by (rule snoc.IH)
    with ne show ?thesis by (simp add: snd_index_step map_of_dict_set)
  qed
qed

lemma length_distinct_keys: "distinct (map fst d) \<Longrightarrow> length d = card (set (map fst d))"
  by (metis distinct_card length_map)

lemma ex_store_sheets:
  "get_all_sheets_recursive ex_store =
     Inr [\<lparr>sid = 1001, sname = ''Budget Template'', modified_at = ''2024-01-01T00:00:00''\<rparr>,
          \<lparr>sid = 1002, sname = ''Budget - Copy'', modified_at = ''2024-01-02T00:00:00''\<rparr>]"
  by (simp add: ex_store_def get_all_sheets_recursive_def)

lemma ex_store_first_run:
  "build_index ex_store [(''9999'', ''2023-12-31T00:00:00'')] =
     Inr ([(''1001'', [1001, 1002])],
          [(''1001'', ''2024-01-01T00:00:00''), (''1002'', ''2024-01-02T00:00:00'')])"
  by code_simp

text \<open>
  Claim C9. Whenever \<^verbatim>\<open>build_index\<close> returns, the returned \<^verbatim>\<open>last_seen\<close> has distinct
  keys, its keys are exactly the ids (as strings) of the sheets discovered in this run,
  it has one entry for each discovered id, a discovered sheet's entry holds the sheet's
  \<^verbatim>\<open>modified_at\<close> (when the listing gives that id one timestamp), and every other key,
  whatever \<^verbatim>\<open>since_cache\<close> held for it, has no entry.
\<close>

theorem build_index_last_seen:
  assumes "get_all_sheets_recursive st = Inr all_sheets"
    and "build_index st since_cache = Inr (mapping, last_seen)"
  shows "distinct (map fst last_seen) \<and>
         set (map fst last_seen) = (\<lambda>s. str_int (sid s)) ` set all_sheets \<and>
         length last_seen = card (sid ` set all_sheets) \<and>
         (\<forall>s \<in> set all_sheets.
            (\<forall>s' \<in> set all_sheets. sid s' = sid s \<longrightarrow> modified_at s' = modified_at s) \<longrightarrow>
            map_of last_seen (str_int (sid s)) = Some (modified_at s)) \<and>
         (\<forall>k. k \<notin> (\<lambda>s. str_int (sid s)) ` set all_sheets \<longrightarrow> map_of last_seen k = None)"
proof -
  from assms have ls: "last_seen = snd (fold (index_step st since_cache) all_sheets ([], []))"
    by (simp add: build_index_def)
  have d: "distinct (map fst last_seen)"
    unfolding ls by (rule distinct_fold_index_step) simp
  have k: "set (map fst last_seen) = (\<lambda>s. str_int (sid s)) ` set all_sheets"
    unfolding ls keys_fold_index_step by simp
  have "inj_on str_int (sid ` set all_sheets)"
    by (rule inj_onI) (rule str_int_inj)
  then have "card (str_int ` sid ` set all_sheets) = card (sid ` set all_sheets)"
    by (rule card_image)
  moreover have "str_int ` sid ` set all_sheets = (\<lambda>s. str_int (sid s)) ` set all_sheets"
    by auto
  ultimately have n: "length last_seen = card (sid ` set all_sheets)"
    using length_distinct_keys [OF d] k by simp
  have v: "\<forall>s \<in> set all_sheets.
            (\<forall>s' \<in> set all_sheets. sid s' = sid s \<longrightarrow> modified_at s' = modified_at s) \<longrightarrow>
            map_of last_seen (str_int (sid s)) = Some (modified_at s)"
    unfolding ls
  proof (intro ballI impI)
    fix s
    assume "s \<in> set all_sheets"
      and "\<forall>s' \<in> set all_sheets. sid s' = sid s \<longrightarrow> modified_at s' = modified_at s"
    then show "map_of (snd (fold (index_step st since_cache) all_sheets ([], []))) (str_int (sid s)) =
        Some (modified_at s)"
      by (rule lookup_fold_index_step)
  qed
  have a: "\<forall>k. k \<notin> (\<lambda>s. str_int (sid s)) ` set all_sheets \<longrightarrow> map_of last_seen k = None"
    using k by (metis map_of_eq_None_iff set_map)
  from d k n v a show ?thesis by blast
qed

theorem build_index_last_seen_witness:
  "get_all_sheets_recursive ex_store =
     Inr [\<lparr>sid = 1001, sname = ''Budget Template'', modified_at = ''2024-01-01T00:00:00''\<rparr>,
          \<lparr>sid = 1002, sname = ''Budget - Copy'', modified_at = ''2024-01-02T00:00:00''\<rparr>] \<and>
   build_index ex_store [(''9999'', ''2023-12-31T00:00:00'')] =
     Inr ([(''1001'', [1001, 1002])],
          [(''1001'', ''2024-01-01T00:00:00''), (''1002'', ''2024-01-02T00:00:00'')]) \<and>
   length [(''1001'', ''2024-01-01T00:00:00''), (''1002'', ''2024-01-02T00:00:00'')] =
     card {1001, 1002 :: int} \<and>
   map_of [(''1001'', ''2024-01-01T00:00:00''), (''1002'', ''2024-01-02T00:00:00'')] ''9999'' = None"
  using build_index_last_seen [OF ex_store_sheets ex_store_first_run]
    ex_store_sheets ex_store_first_run
  by simp

section \<open>duplicate_blank\<close>

lemma tag_origin_first: "Call (UpdateSummaryFields n (str_int src)) \<in> set (tag_origin R n src)"
  by (simp add: tag_origin_def)

lemma tag_origin_logged:
  "update_sheet_summary_fields R n (str_int src) = Inl e \<Longrightarrow> Log ErrorTagging \<in> set (tag_origin R n src)"
  by (simp add: tag_origin_def)

lemma wipe_rows_first: "Call (GetSheet n) \<in> set (wipe_rows R n)"
  by (simp add: wipe_rows_def)

lemma wipe_rows_fetch_logged:
  "get_sheet R n = Inl e \<Longrightarrow> Log ErrorDeletingRows \<in> set (wipe_rows R n)"
  by (simp add: wipe_rows_def)

lemma wipe_rows_delete_logged:
  "get_sheet R n = Inr sh \<Longrightarrow> rows sh \<noteq> [] \<Longrightarrow> delete_rows R n (map row_id (rows sh)) = Inl e \<Longrightarrow>
   Log ErrorDeletingRows \<in> set (wipe_rows R n)"
  by (simp add: wipe_rows_def)

text \<open>
  Claim C2, as amended. Each of the three steps of \<^verbatim>\<open>duplicate_blank\<close> can fail on its own
  and every failure is printed. A failure of the copy ends the sequence: nothing more is
  called and \<^verbatim>\<open>None\<close> is returned. A failure of the tag or of the wipe does not end it:
  after a copy that worked, the tag call and the fetch of the new sheet are always made,
  and the id of the new sheet is returned.
\<close>

theorem duplicate_blank_outcome:
  "(\<forall>e. copy_sheet R src = Inl e \<longrightarrow>
      duplicate_blank R src = ([Call (CopySheet src), Log ErrorCopying], None)) \<and>
   (\<forall>n. copy_sheet R src = Inr n \<longrightarrow>
      snd (duplicate_blank R src) = Some n \<and>
      Call (UpdateSummaryFields n (str_int src)) \<in> set (fst (duplicate_blank R src)) \<and>
      Call (GetSheet n) \<in> set (fst (duplicate_blank R src)) \<and>
      (\<forall>e. update_sheet_summary_fields R n (str_int src) = Inl e \<longrightarrow>
         Log ErrorTagging \<in> set (fst (duplicate_blank R src))) \<and>
      (\<forall>e. get_sheet R n = Inl e \<longrightarrow> Log ErrorDeletingRows \<in> set (fst (duplicate_blank R src))) \<and>
      (\<forall>sh e. get_sheet R n = Inr sh \<and> rows sh \<noteq> [] \<and>
         delete_rows R n (map row_id (rows sh)) = Inl e \<longrightarrow>
         Log ErrorDeletingRows \<in> set (fst (duplicate_blank R src))))"
proof (intro conjI allI impI)
  fix e assume "copy_sheet R src = Inl e"
  then show "duplicate_blank R src = ([Call (CopySheet src), Log ErrorCopying], None)"
    by (simp add: duplicate_blank_def)
next
  fix n assume c: "copy_sheet R src = Inr n"
  then have ev: "fst (duplicate_blank R src) =
      Call (CopySheet src) # tag_origin R n src @ wipe_rows R n @ [Log (Duplicated src n)]"
    by (simp add: duplicate_blank_def)
  from c show "snd (duplicate_blank R src) = Some n" by (simp add: duplicate_blank_def)
  show "Call (UpdateSummaryFields n (str_int src)) \<in> set (fst (duplicate_blank R src))"
    unfolding ev using tag_origin_first [of n src R] by simp
  show "Call (GetSheet n) \<in> set (fst (duplicate_blank R src))"
    unfolding ev using wipe_rows_first [of n R] by simp
  { fix e assume "update_sheet_summary_fields R n (str_int src) = Inl e"
    then show "Log ErrorTagging \<in> set (fst (duplicate_blank R src))"
      unfolding ev using tag_origin_logged [of R n src e] by simp }
  { fix e assume "get_sheet R n = Inl e"
    then show "Log ErrorDeletingRows \<in> set (fst (duplicate_blank R src))"
      unfolding ev using wipe_rows_fetch_logged [of R n e] by simp }
  { fix sh e assume "get_sheet R n = Inr sh \<and> rows sh \<noteq> [] \<and>
         delete_rows R n (map row_id (rows sh)) = Inl e"
    then show "Log ErrorDeletingRows \<in> set (fst (duplicate_blank R src))"
      unfolding ev using wipe_rows_delete_logged [of R n sh e] by simp }
qed

lemma mon_remote_copy: "copy_sheet mon_remote 1001 = Inr 7001"
  by (simp add: mon_remote_def)

lemma str_int_1001: "str_int 1001 = ''1001''"
  by code_simp

theorem duplicate_blank_outcome_witness:
  "copy_sheet mon_remote 1001 = Inr 7001 \<and> snd (duplicate_blank mon_remote 1001) = Some 7001 \<and>
   Call (UpdateSummaryFields 7001 ''1001'') \<in> set (fst (duplicate_blank mon_remote 1001)) \<and>
   Call (GetSheet 7001) \<in> set (fst (duplicate_blank mon_remote 1001))"
  using duplicate_blank_outcome [of mon_remote 1001] mon_remote_copy str_int_1001
  by simp

text \<open>
  Claim C2 as stated fails: on this platform the tag fails, the run goes on to the wipe,
  the wipe fails too, and the call still returns the id of the copy.
\<close>

theorem duplicate_blank_partial_counterexample:
  "update_sheet_summary_fields mon_remote 7001 ''1001'' = Inl ApiError \<and>
   delete_rows mon_remote 7001 [1, 2] = Inl ApiError \<and>
   duplicate_blank mon_remote 1001 =
     ([Call (CopySheet 1001), Call (UpdateSummaryFields 7001 ''1001''), Log ErrorTagging,
       Call (GetSheet 7001), Call (DeleteRows 7001 [1, 2]), Log ErrorDeletingRows,
       Log (Duplicated 1001 7001)],
      Some 7001)"
  by code_simp

section \<open>needs_rollover\<close>

text \<open>
  Claim C10. When the sheet is fetched and listing its references raises, the reference
  threshold does not trip, the check is not aborted (no error line of the outer handler),
  and the result is decided by the two other thresholds: the cell-capacity check is still
  made and \<^verbatim>\<open>needs_rollover\<close> returns \<^verbatim>\<open>True\<close> when it trips.
\<close>

theorem needs_rollover_refs_failure:
  assumes "get_sheet R sheet_id = Inr sh"
    and "list_cross_sheet_references R sheet_id = Inl e"
  shows "\<not> refs_trip R cfg sheet_id \<and>
         snd (needs_rollover R cfg sheet_id) =
           (err_cells sh \<ge> ERR_CELL_LIMIT cfg \<or> cell_count sh \<ge> ERR_CELLCOUNT_LIMIT cfg) \<and>
         Log (ErrorChecking sheet_id) \<notin> set (fst (needs_rollover R cfg sheet_id)) \<and>
         (cell_count sh \<ge> ERR_CELLCOUNT_LIMIT cfg \<longrightarrow> snd (needs_rollover R cfg sheet_id))"
  using assms by (simp add: needs_rollover_def refs_trip_def)

lemma mon_remote_sheet: "get_sheet mon_remote 1002 = Inr big_sheet"
  by (simp add: mon_remote_def)

lemma mon_remote_refs: "list_cross_sheet_references mon_remote 1002 = Inl ApiError"
  by (simp add: mon_remote_def)

theorem needs_rollover_refs_failure_witness:
  "get_sheet mon_remote 1002 = Inr big_sheet \<and>
   list_cross_sheet_references mon_remote 1002 = Inl ApiError \<and>
   err_cells big_sheet = 0 \<and> cell_count big_sheet = 4800000 \<and>
   snd (needs_rollover mon_remote default_thresholds 1002)"
proof -
  have a: "err_cells big_sheet = 0"
    by (simp add: err_cells_def big_sheet_def is_err_cell_def starts_with_def)
  have b: "cell_count big_sheet = 4800000"
    by (simp add: cell_count_def big_sheet_def)
  from needs_rollover_refs_failure [OF mon_remote_sheet mon_remote_refs, of default_thresholds]
  have "snd (needs_rollover mon_remote default_thresholds 1002)"
    by (simp add: a b default_thresholds_def)
  with a b mon_remote_sheet mon_remote_refs show ?thesis by simp
qed

section \<open>Parsing a decimal string\<close>

lemma digit_char_is_digit: "d < 10 \<Longrightarrow> is_digit (digit_char d)"
proof -
  assume "d < 10"
  then have "d \<in> {0,1,2,3,4,5,6,7,8,9}" by auto
  then show ?thesis by (auto simp: digit_char_def is_digit_def)
qed

lemma digit_val_digit_char: "d < 10 \<Longrightarrow> digit_val (digit_char d) = int d"
proof -
  assume "d < 10"
  then have "d \<in> {0,1,2,3,4,5,6,7,8,9}" by auto
  then show ?thesis by (auto simp: digit_char_def digit_val_def)
qed

lemma is_digit_not_underscore: "is_digit c \<Longrightarrow> c \<noteq> CHR ''_''"
  by (auto simp: is_digit_def)

lemma is_digit_not_space: "is_digit c \<Longrightarrow> \<not> is_int_space c"
  by (auto simp: is_digit_def is_int_space_def)

lemma is_digit_not_sign: "is_digit c \<Longrightarrow> c \<noteq> CHR ''-'' \<and> c \<noteq> CHR ''+''"
  by (auto simp: is_digit_def)

lemma parse_dec_digits:
  "ds \<noteq> [] \<Longrightarrow> \<forall>c \<in> set ds. is_digit c \<Longrightarrow>
   parse_dec acc ds = Some (fold (\<lambda>c a. a * 10 + digit_val c) ds acc)"
proof (induction acc ds rule: parse_dec.induct)
  case (1 acc)
  then show ?case by simp
next
  case (2 acc c)
  then show ?case by simp
next
  case (3 acc c d cs)
  then show ?case by (simp add: is_digit_not_underscore)
qed

lemma str_nat_digits: "\<forall>c \<in> set (str_nat n). is_digit c"
proof (induction n rule: str_nat.induct)
  case (1 n)
  show ?case
  proof (cases "n < 10")
    case True
    then show ?thesis by (simp add: str_nat_small digit_char_is_digit)
  next
    case False
    with 1 show ?thesis by (simp add: str_nat_big digit_char_is_digit)
  qed
qed

lemma fold_str_nat: "fold (\<lambda>c a. a * 10 + digit_val c) (str_nat n) 0 = int n"
proof (induction n rule: str_nat.induct)
  case (1 n)
  show ?case
  proof (cases "n < 10")
    case True
    then show ?thesis by (simp add: str_nat_small digit_val_digit_char)
  next
    case False
    with 1 have "fold (\<lambda>c a. a * 10 + digit_val c) (str_nat n) 0 =
        int (n div 10) * 10 + int (n mod 10)"
      by (simp add: str_nat_big digit_val_digit_char)
    also have "\<dots> = int n" by presburger
    finally show ?thesis .
  qed
qed

lemma parse_digits_str_nat:
  "length (str_nat n) \<le> 4300 \<Longrightarrow> parse_digits (str_nat n) = Some (int n)"
proof -
  assume len: "length (str_nat n) \<le> 4300"
  obtain c cs where s: "str_nat n = c # cs"
    using str_nat_nonempty [of n] by (cases "str_nat n") auto
  have d: "\<forall>c \<in> set (str_nat n). is_digit c" by (rule str_nat_digits)
  then have f: "filter is_digit (str_nat n) = str_nat n" by (simp add: filter_id_conv)
  have "parse_dec 0 (str_nat n) = Some (int n)"
    using parse_dec_digits [OF str_nat_nonempty d, of 0] by (simp add: fold_str_nat)
  with s d f len show ?thesis
    by (simp add: parse_digits_def int_max_str_digits_def)
qed

lemma int_strip_digits_ends:
  assumes "s \<noteq> []" and "\<not> is_int_space (hd s)" and "\<not> is_int_space (last s)"
  shows "int_strip s = s"
proof -
  from assms(1,2) have a: "dropWhile is_int_space s = s" by (cases s) auto
  from assms(1,3) have "dropWhile is_int_space (rev s) = rev s"
    by (cases "rev s") (auto simp: hd_rev [symmetric])
  with a show ?thesis by (simp add: int_strip_def)
qed

lemma str_nat_last: "is_digit (last (str_nat n))"
  using str_nat_digits [of n] str_nat_nonempty [of n] last_in_set by blast

lemma str_nat_hd_digit: "is_digit (hd (str_nat n))"
  using str_nat_digits [of n] str_nat_nonempty [of n] hd_in_set by blast

lemma py_int_str_int:
  assumes "length (str_int k) \<le> 4300"
  shows "py_int (str_int k) = Some k"
proof (cases "k < 0")
  case True
  let ?ds = "str_nat (nat (- k))"
  have s: "str_int k = CHR ''-'' # ?ds" using True by (simp add: str_int_def)
  have "last (str_int k) = last ?ds" using s str_nat_nonempty by simp
  then have "\<not> is_int_space (last (str_int k))"
    using str_nat_last [of "nat (- k)"] is_digit_not_space by simp
  moreover have "\<not> is_int_space (hd (str_int k))" by (simp add: s is_int_space_def)
  ultimately have strip: "int_strip (str_int k) = str_int k"
    using int_strip_digits_ends [of "str_int k"] s by simp
  from assms s have "length ?ds \<le> 4300" by simp
  then have "parse_digits ?ds = Some (int (nat (- k)))" by (rule parse_digits_str_nat)
  with True strip s show ?thesis by (simp add: py_int_def)
next
  case False
  let ?ds = "str_nat (nat k)"
  have s: "str_int k = ?ds" using False by (simp add: str_int_def)
  obtain c cs where cs: "?ds = c # cs" using str_nat_nonempty [of "nat k"] by (cases ?ds) auto
  have dc: "is_digit c" using str_nat_hd_digit [of "nat k"] cs by simp
  have "\<not> is_int_space (hd ?ds)" "\<not> is_int_space (last ?ds)"
    using str_nat_hd_digit [of "nat k"] str_nat_last [of "nat k"] is_digit_not_space by blast+
  then have strip: "int_strip ?ds = ?ds"
    using int_strip_digits_ends [of ?ds] str_nat_nonempty by simp
  from assms s have "parse_digits ?ds = Some (int (nat k))" by (simp add: parse_digits_str_nat)
  with False strip s cs dc is_digit_not_sign [OF dc] show ?thesis by (simp add: py_int_def)
qed

lemma set_int_strip: "set (int_strip s) \<subseteq> set s"
proof -
  have "set (dropWhile is_int_space (rev (dropWhile is_int_space s))) \<subseteq> set (rev (dropWhile is_int_space s))"
    by (rule set_dropWhileD [THEN subsetI])
  also have "\<dots> \<subseteq> set s" using set_dropWhileD by fastforce
  finally show ?thesis by (simp add: int_strip_def)
qed

lemma parse_digits_no_digit: "\<forall>c \<in> set s. \<not> is_digit c \<Longrightarrow> parse_digits s = None"
  by (cases s) (simp_all add: parse_digits_def)

lemma py_int_no_digit:
  assumes "\<forall>c \<in> set s. \<not> is_digit c"
  shows "py_int s = None"
proof (cases "int_strip s")
  case Nil
  then show ?thesis by (simp add: py_int_def)
next
  case (Cons c cs)
  with set_int_strip [of s] assms have "\<forall>x \<in> set (c # cs). \<not> is_digit x" by auto
  then have "parse_digits cs = None" "parse_digits (c # cs) = None"
    by (simp_all add: parse_digits_no_digit)
  with Cons show ?thesis by (simp add: py_int_def)
qed

lemma py_int_examples:
  "py_int ''1001'' = Some 1001" "py_int '' -1_002 '' = Some (- 1002)" "py_int ''+7'' = Some 7"
  "py_int [CHR 0x1C, CHR ''7''] = None" "py_int ''Budget'' = None" "py_int ''12a'' = None"
  "py_int ''1__0'' = None" "py_int ''+ 7'' = None" "py_int '''' = None"
  by code_simp+

lemma py_int_digit_limit:
  "py_int (replicate 4300 CHR ''1'') \<noteq> None" "py_int (replicate 4301 CHR ''1'') = None"
proof -
  have d: "is_digit CHR ''1''" by (simp add: is_digit_def)
  have sp: "\<not> is_int_space CHR ''1''" by (simp add: is_int_space_def)
  have strip: "0 < n \<Longrightarrow> int_strip (replicate n CHR ''1'') = replicate n CHR ''1''" for n
    using int_strip_digits_ends [of "replicate n CHR ''1''"] sp
    by (cases n) (simp_all add: last_replicate)
  have f: "filter is_digit (replicate n CHR ''1'') = replicate n CHR ''1''" for n
    using d by simp
  have r: "0 < n \<Longrightarrow> replicate n CHR ''1'' = CHR ''1'' # replicate (n - 1) CHR ''1''" for n
    by (cases n) simp_all
  have p: "0 < n \<Longrightarrow> parse_dec 0 (replicate n CHR ''1'') \<noteq> None" for n
    using parse_dec_digits [of "replicate n CHR ''1''" 0] d by (cases n) auto
  have a: "py_int (replicate n CHR ''1'') = parse_digits (replicate n CHR ''1'')" if "0 < n" for n
    using strip [OF that] r [OF that] by (simp add: py_int_def split: list.splits)
  have b: "0 < n \<Longrightarrow> parse_digits (replicate n CHR ''1'') =
      (if n \<le> 4300 then parse_dec 0 (replicate n CHR ''1'') else None)" for n
    using d by (cases n) (simp_all add: parse_digits_def int_max_str_digits_def)
  show "py_int (replicate 4300 CHR ''1'') \<noteq> None"
    using a [of 4300] b [of 4300] p [of 4300] by simp
  show "py_int (replicate 4301 CHR ''1'') = None"
    using a [of 4301] b [of 4301] by simp
qed

section \<open>monitor_group\<close>

lemma fold_max_eq: "fold (\<lambda>y m. if y > m then y else m) ys (x::int) = Max (set (x # ys))"
proof -
  have "(\<lambda>y m. if y > m then y else m) = (max :: int \<Rightarrow> int \<Rightarrow> int)"
    by (auto simp: fun_eq_iff max_def)
  then show ?thesis using Max.set_eq_fold [of x ys] by simp
qed

lemma fold_min_eq: "fold (\<lambda>y m. if y < m then y else m) ys (x::int) = Min (set (x # ys))"
proof -
  have "(\<lambda>y m. if y < m then y else m) = (min :: int \<Rightarrow> int \<Rightarrow> int)"
    by (auto simp: fun_eq_iff min_def)
  then show ?thesis using Min.set_eq_fold [of x ys] by simp
qed

lemma py_max_eq: "sheets \<noteq> [] \<Longrightarrow> py_max sheets = Inr (Max (set sheets))"
  by (cases sheets) (simp_all add: py_max_def fold_max_eq del: set_simps)

lemma py_min_eq: "sheets \<noteq> [] \<Longrightarrow> py_min sheets = Inr (Min (set sheets))"
  by (cases sheets) (simp_all add: py_min_def fold_min_eq del: set_simps)

text \<open>
  Claim C7. For a non-empty group, \<^verbatim>\<open>monitor_group\<close> evaluates the instance with the
  greatest id and, when that one needs a rollover, duplicates the origin: the group key
  when it parses as an integer, and the least id of the group otherwise. A key that is
  the decimal string of an id parses as that id, and a key without a digit does not
  parse.
\<close>

theorem monitor_group_latest_origin:
  assumes "sheets \<noteq> []"
  shows "monitor_group R cfg template_id sheets =
     (if snd (needs_rollover R cfg (Max (set sheets)))
      then (fst (needs_rollover R cfg (Max (set sheets))) @
              fst (duplicate_blank R
                (case py_int template_id of Some n \<Rightarrow> n | None \<Rightarrow> Min (set sheets))),
            Inr ())
      else (fst (needs_rollover R cfg (Max (set sheets))), Inr ())) \<and>
     (\<forall>k. template_id = str_int k \<and> length template_id \<le> 4300 \<longrightarrow>
        py_int template_id = Some k) \<and>
     ((\<forall>c \<in> set template_id. \<not> is_digit c) \<longrightarrow> py_int template_id = None)"
proof (intro conjI allI impI)
  obtain ev b where nr: "needs_rollover R cfg (Max (set sheets)) = (ev, b)"
    by (cases "needs_rollover R cfg (Max (set sheets))")
  show "monitor_group R cfg template_id sheets =
     (if snd (needs_rollover R cfg (Max (set sheets)))
      then (fst (needs_rollover R cfg (Max (set sheets))) @
              fst (duplicate_blank R
                (case py_int template_id of Some n \<Rightarrow> n | None \<Rightarrow> Min (set sheets))),
            Inr ())
      else (fst (needs_rollover R cfg (Max (set sheets))), Inr ()))"
    using assms nr
    by (cases b; cases "py_int template_id")
      (simp_all add: monitor_group_def py_max_eq py_min_eq original_sheet_id_def)
next
  fix k
  assume h: "template_id = str_int k \<and> length template_id \<le> 4300"
  then have "length (str_int k) \<le> 4300" by blast
  then have "py_int (str_int k) = Some k" by (rule py_int_str_int)
  with h show "py_int template_id = Some k" by blast
next
  assume "\<forall>c \<in> set template_id. \<not> is_digit c"
  then show "py_int template_id = None" by (rule py_int_no_digit)
qed

lemma mon_latest_trips: "needs_rollover mon_remote default_thresholds 1002 =
    ([Call (GetSheet 1002), Call (ListRefs 1002)], True)"
  by code_simp

lemma mon_duplicate: "fst (duplicate_blank mon_remote 1001) =
    [Call (CopySheet 1001), Call (UpdateSummaryFields 7001 ''1001''), Log ErrorTagging,
     Call (GetSheet 7001), Call (DeleteRows 7001 [1, 2]), Log ErrorDeletingRows,
     Log (Duplicated 1001 7001)]"
  by code_simp

theorem monitor_group_latest_origin_witness:
  "Max (set [1001, 1002 :: int]) = 1002 \<and> py_int ''1001'' = Some 1001 \<and>
   monitor_group mon_remote default_thresholds ''1001'' [1001, 1002] =
     ([Call (GetSheet 1002), Call (ListRefs 1002), Call (CopySheet 1001),
       Call (UpdateSummaryFields 7001 ''1001''), Log ErrorTagging,
       Call (GetSheet 7001), Call (DeleteRows 7001 [1, 2]), Log ErrorDeletingRows,
       Log (Duplicated 1001 7001)], Inr ()) \<and>
   py_int ''Budget'' = None \<and> Min (set [1002, 1001 :: int]) = 1001 \<and>
   monitor_group mon_remote default_thresholds ''Budget'' [1002, 1001] =
     ([Call (GetSheet 1002), Call (ListRefs 1002), Call (CopySheet 1001),
       Call (UpdateSummaryFields 7001 ''1001''), Log ErrorTagging,
       Call (GetSheet 7001), Call (DeleteRows 7001 [1, 2]), Log ErrorDeletingRows,
       Log (Duplicated 1001 7001)], Inr ())"
proof -
  have a: "[1001, 1002 :: int] \<noteq> []" "[1002, 1001 :: int] \<noteq> []" by simp_all
  have m: "Max (set [1001, 1002 :: int]) = 1002" "Max (set [1002, 1001 :: int]) = 1002"
    "Min (set [1002, 1001 :: int]) = 1001" by simp_all
  have s: "str_int 1001 = ''1001''" by code_simp
  from monitor_group_latest_origin [OF a(1), of mon_remote default_thresholds "''1001''"]
  have "''1001'' = str_int 1001 \<and> length ''1001'' \<le> 4300 \<longrightarrow> py_int ''1001'' = Some 1001"
    by blast
  with s have p1: "py_int ''1001'' = Some 1001" by simp
  have d: "\<forall>c \<in> set ''Budget''. \<not> is_digit c" by (simp add: is_digit_def)
  from monitor_group_latest_origin [OF a(2), of mon_remote default_thresholds "''Budget''"] d
  have p2: "py_int ''Budget'' = None" by blast
  from monitor_group_latest_origin [OF a(1), of mon_remote default_thresholds "''1001''"]
  have g1: "monitor_group mon_remote default_thresholds ''1001'' [1001, 1002] =
     ([Call (GetSheet 1002), Call (ListRefs 1002), Call (CopySheet 1001),
       Call (UpdateSummaryFields 7001 ''1001''), Log ErrorTagging,
       Call (GetSheet 7001), Call (DeleteRows 7001 [1, 2]), Log ErrorDeletingRows,
       Log (Duplicated 1001 7001)], Inr ())"
    by (simp only: m p1 mon_latest_trips mon_duplicate option.case fst_conv snd_conv if_True append.simps)
  from monitor_group_latest_origin [OF a(2), of mon_remote default_thresholds "''Budget''"]
  have g2: "monitor_group mon_remote default_thresholds ''Budget'' [1002, 1001] =
     ([Call (GetSheet 1002), Call (ListRefs 1002), Call (CopySheet 1001),
       Call (UpdateSummaryFields 7001 ''1001''), Log ErrorTagging,
       Call (GetSheet 7001), Call (DeleteRows 7001 [1, 2]), Log ErrorDeletingRows,
       Log (Duplicated 1001 7001)], Inr ())"
    by (simp only: m p2 mon_latest_trips mon_duplicate option.case fst_conv snd_conv if_True append.simps)
  from m p1 p2 g1 g2 show ?thesis by simp
qed

section \<open>Missing input files\<close>

text \<open>
  Claim C6 at its failing input. When the mapping file does not exist, \<^verbatim>\<open>main\<close> of the
  monitor and \<^verbatim>\<open>main\<close> of the updater both end with an uncaught
  \<^verbatim>\<open>FileNotFoundError\<close>, having printed nothing and called nothing.
\<close>

theorem missing_mapping_file_raises:
  "monitor_main Absent = ([], Inl FileNotFoundError) \<and>
   updater_main (inp\<lparr>mapping_json := Absent\<rparr>) = ([], Inl FileNotFoundError)"
  by (simp add: monitor_main_def updater_main_def read_inputs_def)

theorem missing_mapping_file_raises_witness:
  "updater_main ex_input = ([], Inl FileNotFoundError)"
  using missing_mapping_file_raises [where inp = ex_input]
  by (simp add: ex_input_def)

text \<open>The sibling path: a missing \<^verbatim>\<open>auto_rollup_config.json\<close> is caught, reported and
  ends the run without a remote call.\<close>

lemma missing_auto_config_clean_exit:
  "mapping_json inp = Content mapping \<Longrightarrow> rollups_arg inp = Some ''auto'' \<Longrightarrow>
   auto_rollup_config inp = Absent \<Longrightarrow> updater_main inp = ([Log NoAutoConfig], Inr None)"
  by (simp add: updater_main_def read_inputs_def)

section \<open>Two discovery runs\<close>

lemma fst_fold_index_step_cached:
  "\<forall>s \<in> set xs. map_of c (str_int (sid s)) = Some (modified_at s) \<Longrightarrow>
   fst (fold (index_step st c) xs acc) = fst acc"
  by (induction xs arbitrary: acc) (simp_all add: index_step_def Let_def)

lemma snd_fold_index_step_any_cache:
  "snd acc = snd acc' \<Longrightarrow>
   snd (fold (index_step st c) xs acc) = snd (fold (index_step st c') xs acc')"
proof (induction xs arbitrary: acc acc')
  case Nil
  then show ?case by simp
next
  case (Cons x xs)
  have "snd (index_step st c x acc) = snd (index_step st c' x acc')"
    using Cons.prems by (simp add: snd_index_step)
  from Cons.IH [OF this] show ?case by simp
qed

text \<open>A second run over an unchanged workspace, started from the cache the first run
  returned, skips every sheet: it returns the same cache and an empty mapping.\<close>

lemma build_index_second_run:
  assumes sheets: "get_all_sheets_recursive st = Inr all_sheets"
    and run: "build_index st since_cache = Inr (mapping, last_seen)"
    and one: "\<forall>s \<in> set all_sheets. \<forall>s' \<in> set all_sheets.
                sid s' = sid s \<longrightarrow> modified_at s' = modified_at s"
  shows "build_index st last_seen = Inr ([], last_seen)"
proof -
  from sheets run have ls: "last_seen = snd (fold (index_step st since_cache) all_sheets ([], []))"
    by (simp add: build_index_def)
  have cached: "\<forall>s \<in> set all_sheets. map_of last_seen (str_int (sid s)) = Some (modified_at s)"
    unfolding ls
  proof
    fix s
    assume s: "s \<in> set all_sheets"
    with one have "\<forall>s' \<in> set all_sheets. sid s' = sid s \<longrightarrow> modified_at s' = modified_at s"
      by blast
    with s show "map_of (snd (fold (index_step st since_cache) all_sheets ([], []))) (str_int (sid s)) =
        Some (modified_at s)"
      by (rule lookup_fold_index_step)
  qed
  have "fst (fold (index_step st last_seen) all_sheets ([], [])) = []"
    using fst_fold_index_step_cached [OF cached, of st "([], [])"] by simp
  moreover have "snd (fold (index_step st last_seen) all_sheets ([], [])) = last_seen"
    unfolding ls by (rule snd_fold_index_step_any_cache) simp
  ultimately have "fold (index_step st last_seen) all_sheets ([], []) = ([], last_seen)"
    by (metis prod.collapse)
  with sheets show ?thesis by (simp add: build_index_def)
qed

text \<open>
  Claim C1 at its failing input. The first run over the example workspace returns the
  group of the template and the cache of both sheets; the second run, started from that
  cache with nothing changed, returns the same cache and no group at all.
\<close>

theorem discovery_second_run_drops_mapping:
  "build_index ex_store [] =
     Inr ([(''1001'', [1001, 1002])],
          [(''1001'', ''2024-01-01T00:00:00''), (''1002'', ''2024-01-02T00:00:00'')]) \<and>
   build_index ex_store [(''1001'', ''2024-01-01T00:00:00''), (''1002'', ''2024-01-02T00:00:00'')] =
     Inr ([], [(''1001'', ''2024-01-01T00:00:00''), (''1002'', ''2024-01-02T00:00:00'')])"
  by code_simp

theorem discovery_second_run_drops_mapping_witness:
  "map_option fst (case build_index ex_store [] of Inl e \<Rightarrow> None | Inr r \<Rightarrow> Some r) \<noteq>
   map_option fst (case build_index ex_store
       [(''1001'', ''2024-01-01T00:00:00''), (''1002'', ''2024-01-02T00:00:00'')] of
     Inl e \<Rightarrow> None | Inr r \<Rightarrow> Some r)"
  using discovery_second_run_drops_mapping by simp

section \<open>process_rollup\<close>

text \<open>
  Claim C3 at its input. With the integer ids of \<^verbatim>\<open>mapping.json\<close>, the name of the new
  reference cannot be built (\<^verbatim>\<open>dup[-4:]\<close> on an integer): the run raises
  \<^verbatim>\<open>TypeError\<close> after the two fetches, no reference is created and no formula is
  rewritten.
\<close>

theorem process_rollup_int_ids_raise:
  "process_rollup ex_remote 5000 [(''1001'', [PInt 1001, PInt 1002])] False =
     ([Call (ListRefs 5000), Call (GetSheet 5000)], Inl TypeError)"
  by code_simp

theorem process_rollup_int_ids_raise_witness:
  "snd (process_rollup ex_remote 5000 [(''1001'', [PInt 1001, PInt 1002])] False) = Inl TypeError"
  using process_rollup_int_ids_raise by simp

section \<open>Building the request for a new reference\<close>

text \<open>The request for a new reference can never be built: the name needs a duplicate id
  that can be subscripted, the model object one that is a number.\<close>

lemma clone_refs_raises:
  "clone_refs R i dup (ref # ref_list) rm = ([], Inl (request_error dup))"
  by (cases dup) (simp_all add: cross_sheet_reference_def dup_ref_def)

lemma clone_dups_outcome:
  "clone_dups R i sources ref_list dup_ids rm =
     (case (if ref_list = [] then [] else filter (\<lambda>dup. dup \<notin> set sources) dup_ids) of
        [] \<Rightarrow> ([], Inr rm)
      | dup # ds \<Rightarrow> ([], Inl (request_error dup)))"
proof (induction dup_ids)
  case Nil
  show ?case by simp
next
  case (Cons dup dup_ids)
  show ?case
  proof (cases ref_list)
    case Nil
    with Cons show ?thesis by simp
  next
    case (Cons ref refs)
    with Cons.IH show ?thesis by (simp add: clone_refs_raises del: clone_refs.simps)
  qed
qed

lemma clone_sources_outcome:
  "clone_sources R i mapping sources srcs rm =
     (case missing_dups mapping sources srcs of
        [] \<Rightarrow> ([], Inr rm)
      | dup # ds \<Rightarrow> ([], Inl (request_error dup)))"
proof (induction srcs)
  case Nil
  show ?case by (simp add: missing_dups_def)
next
  case (Cons p srcs)
  obtain src_id ref_list where p: "p = (src_id, ref_list)" by (cases p)
  let ?m = "if ref_list = [] then [] else filter (\<lambda>dup. dup \<notin> set sources) (dup_ids_of mapping src_id)"
  have m: "missing_dups mapping sources (p # srcs) = ?m @ missing_dups mapping sources srcs"
    by (simp add: missing_dups_def p)
  show ?case
  proof (cases ?m)
    case Nil
    with Cons p m show ?thesis by (simp add: clone_dups_outcome)
  next
    case (Cons d ds)
    with p m show ?thesis by (simp add: clone_dups_outcome)
  qed
qed

text \<open>So a run that fetched the references and the sheet ends at the first missing
  duplicate with the exception of its request, or reports that there is nothing to
  update; it makes no other call than the two fetches, with or without the dry-run flag.\<close>

lemma process_rollup_outcome:
  assumes "list_cross_sheet_references R i = Inr rr" and "get_sheet R i = Inr sh"
    and "refs_of rr = Inr refs"
  shows "process_rollup R i mapping dry =
     (case missing_dups mapping (map source_sheet_id refs) (src_to_refs (active_tokens sh) refs) of
        [] \<Rightarrow> ([Call (ListRefs i), Call (GetSheet i), Log (NothingToUpdate i)], Inr ())
      | dup # ds \<Rightarrow> ([Call (ListRefs i), Call (GetSheet i)], Inl (request_error dup)))"
  using assms
  by (simp add: process_rollup_def clone_missing_def clone_sources_outcome split: list.splits)

lemma process_rollup_only_reads:
  "set (fst (process_rollup R i mapping dry)) \<subseteq>
     {Call (ListRefs i), Call (GetSheet i), Log (NothingToUpdate i)}"
proof (cases "\<exists>rr sh refs. list_cross_sheet_references R i = Inr rr \<and> get_sheet R i = Inr sh \<and>
             refs_of rr = Inr refs")
  case False
  then show ?thesis by (auto simp: process_rollup_def split: prod.splits sum.splits)
next
  case True
  then obtain rr sh refs where "list_cross_sheet_references R i = Inr rr" "get_sheet R i = Inr sh"
    "refs_of rr = Inr refs" by blast
  from process_rollup_outcome [OF this, of mapping dry] show ?thesis
    by (auto split: list.splits)
qed

lemma process_rollup_dry_irrelevant:
  "process_rollup R i mapping True = process_rollup R i mapping False"
proof (cases "\<exists>rr sh refs. list_cross_sheet_references R i = Inr rr \<and> get_sheet R i = Inr sh \<and>
             refs_of rr = Inr refs")
  case False
  then show ?thesis by (auto simp: process_rollup_def split: prod.splits sum.splits)
next
  case True
  then obtain rr sh refs where f: "list_cross_sheet_references R i = Inr rr" "get_sheet R i = Inr sh"
    "refs_of rr = Inr refs" by blast
  show ?thesis by (simp only: process_rollup_outcome [OF f])
qed

text \<open>
  Claim C4 at its failing input. In a dry run over the example rollup, where the
  reference into duplicate 1002 is missing and one row would change, nothing is
  reported: the run raises \<^verbatim>\<open>TypeError\<close> after the two fetches.
\<close>

theorem dry_run_missing_reference_raises:
  "process_rollup ex_remote 5000 [(''1001'', [PInt 1001, PInt 1002])] True =
     ([Call (ListRefs 5000), Call (GetSheet 5000)], Inl TypeError)"
  by code_simp

theorem dry_run_missing_reference_raises_witness:
  "fst (process_rollup ex_remote 5000 [(''1001'', [PInt 1001, PInt 1002])] True) =
     [Call (ListRefs 5000), Call (GetSheet 5000)]"
  using dry_run_missing_reference_raises by simp

section \<open>The write phase\<close>






section \<open>A failure while a reference is created\<close>






section \<open>Prefixes and occurrences\<close>

lemma sw_Nil [simp]: "starts_with s []"
  by (simp add: starts_with_def)

lemma sw_Cons [simp]: "starts_with (c # s) (d # q) = (c = d \<and> starts_with s q)"
  by (auto simp: starts_with_def)

lemma sw_Nil_Cons [simp]: "\<not> starts_with [] (d # q)"
  by (simp add: starts_with_def)

lemma sw_decomp: "starts_with t p \<Longrightarrow> t = p @ drop (length p) t"
  by (metis append_take_drop_id starts_with_def)

lemma py_in_Cons_ne: "c \<noteq> d \<Longrightarrow> py_in (d # q) (c # cs) = py_in (d # q) cs"
  by simp

lemma py_in_skip: "d \<notin> set u \<Longrightarrow> py_in (d # q) (u @ v) = py_in (d # q) v"
  by (induction u) auto

lemma py_in_Nil_iff: "py_in p [] = (p = [])"
  by simp

lemma token_Cons: "token nm = CHR ''{'' # nm @ [CHR ''}'']"
  by (simp add: token_def)

lemma brace_free_Nil [simp]: "brace_free []"
  by (simp add: brace_free_def)

lemma brace_free_Cons [simp]:
  "brace_free (c # cs) = (c \<noteq> CHR ''{'' \<and> c \<noteq> CHR ''}'' \<and> brace_free cs)"
  by (simp add: brace_free_def not_brace_def)

lemma brace_free_no_open: "brace_free x \<Longrightarrow> CHR ''{'' \<notin> set x"
  by (induction x) auto

lemma sw_run:
  "brace_free x \<Longrightarrow> brace_free y \<Longrightarrow>
   starts_with (y @ CHR ''}'' # v) (x @ [CHR ''}'']) = (x = y)"
proof (induction x arbitrary: y)
  case Nil
  then show ?case by (cases y) auto
next
  case (Cons a x)
  then show ?case by (cases y) auto
qed

lemma sw_token:
  "brace_free x \<Longrightarrow> brace_free y \<Longrightarrow> starts_with (token y @ v) (token x) = (x = y)"
  by (simp add: token_Cons sw_run)

lemma py_in_token_append:
  assumes "brace_free x" and "brace_free y"
  shows "py_in (token x) (token y @ v) = (x = y \<or> py_in (token x) v)"
proof -
  have "CHR ''{'' \<notin> set (y @ [CHR ''}''])"
    using brace_free_no_open [OF assms(2)] by simp
  from py_in_skip [OF this, of "x @ [CHR ''}'']" v]
  have "py_in (token x) ((y @ [CHR ''}'']) @ v) = py_in (token x) v"
    by (simp add: token_Cons)
  moreover have "py_in (token x) (token y @ v) =
      (starts_with (token y @ v) (token x) \<or> py_in (token x) ((y @ [CHR ''}'']) @ v))"
    by (simp add: token_Cons)
  ultimately show ?thesis using sw_token [OF assms] by simp
qed

section \<open>Replacing a token\<close>

lemma replace_Nil: "p \<noteq> [] \<Longrightarrow> py_replace p r [] = []"
  by simp

lemma replace_match:
  "p \<noteq> [] \<Longrightarrow> starts_with t p \<Longrightarrow> py_replace p r t = r @ py_replace p r (drop (length p) t)"
  by (cases t; cases p) (simp_all del: sw_Cons)

lemma replace_nomatch:
  "p \<noteq> [] \<Longrightarrow> \<not> starts_with (c # cs) p \<Longrightarrow> py_replace p r (c # cs) = c # py_replace p r cs"
  by simp

lemma replace_absent: "p \<noteq> [] \<Longrightarrow> \<not> py_in p t \<Longrightarrow> py_replace p r t = t"
  by (induction t) simp_all

lemma replace_keeps_prefix:
  "CHR ''{'' \<notin> set u \<Longrightarrow>
   starts_with (py_replace (CHR ''{'' # q) (CHR ''{'' # r) cs) u = starts_with cs u"
proof (induction u arbitrary: cs)
  case Nil
  show ?case by simp
next
  case (Cons a u)
  show ?case
  proof (cases cs)
    case Nil
    then show ?thesis by simp
  next
    case (Cons d ds)
    show ?thesis
    proof (cases "d = CHR ''{''")
      case True
      with Cons Cons.prems show ?thesis by auto
    next
      case False
      with Cons Cons.IH [of ds] Cons.prems show ?thesis by simp
    qed
  qed
qed

lemma token_not_Nil [simp]: "token nm \<noteq> []"
  by (simp add: token_Cons)

lemma py_in_replace_token:
  assumes x: "brace_free x" and old: "brace_free old" and new: "brace_free new"
  shows "py_in (token x) (py_replace (token old) (token old @ '', '' @ token new) t) =
         (py_in (token x) t \<or> (x = new \<and> py_in (token old) t))"
proof (induction t rule: length_induct)
  case (1 t)
  let ?R = "py_replace (token old) (token old @ '', '' @ token new)"
  have IH: "length v < length t \<Longrightarrow>
      py_in (token x) (?R v) = (py_in (token x) v \<or> (x = new \<and> py_in (token old) v))" for v
    using 1 by blast
  show ?case
  proof (cases t)
    case Nil
    then show ?thesis by (simp add: py_in_Nil_iff)
  next
    case (Cons c cs)
    show ?thesis
    proof (cases "starts_with t (token old)")
      case True
      define v where "v = drop (length (token old)) t"
      from True have t: "t = token old @ v"
        unfolding v_def by (rule sw_decomp)
      have "length t = length (token old) + length v"
        using t by (metis length_append)
      then have len: "length v < length t"
        by (simp add: token_Cons)
      have R: "?R t = token old @ '', '' @ token new @ ?R v"
        using replace_match [OF token_not_Nil True] by (simp add: v_def)
      have skip: "py_in (token x) ('', '' @ w) = py_in (token x) w" for w
        using py_in_skip [of "CHR ''{''" "'', ''" "x @ [CHR ''}'']" w] by (simp add: token_Cons)
      have "py_in (token x) (?R t) = (x = old \<or> x = new \<or> py_in (token x) (?R v))"
        unfolding R
        by (simp only: py_in_token_append [OF x old] skip py_in_token_append [OF x new])
      also have "\<dots> = (x = old \<or> x = new \<or> py_in (token x) v)"
        using IH [OF len] by auto
      finally have l: "py_in (token x) (?R t) = (x = old \<or> x = new \<or> py_in (token x) v)" .
      have a: "py_in (token x) t = (x = old \<or> py_in (token x) v)"
        by (subst t) (rule py_in_token_append [OF x old])
      have b: "py_in (token old) t"
        by (subst t) (simp add: py_in_token_append [OF old old])
      from l a b show ?thesis by auto
    next
      case False
      with Cons have R: "?R t = c # ?R cs"
        by (simp add: replace_nomatch del: py_replace.simps)
      have len: "length cs < length t" using Cons by simp
      have pre: "starts_with (c # ?R cs) (token x) = starts_with (c # cs) (token x)"
      proof (cases "c = CHR ''{''")
        case True
        have "starts_with (?R cs) (x @ [CHR ''}'']) = starts_with cs (x @ [CHR ''}''])"
          using replace_keeps_prefix [of "x @ [CHR ''}'']" "old @ [CHR ''}'']"
              "old @ [CHR ''}''] @ '', '' @ token new" cs] brace_free_no_open [OF x]
          by (simp add: token_Cons)
        with True show ?thesis by (simp add: token_Cons)
      next
        case False
        then show ?thesis by (simp add: token_Cons)
      qed
      have l: "py_in (token x) (?R t) = (starts_with (c # cs) (token x) \<or> py_in (token x) (?R cs))"
        unfolding R using pre by simp
      have a: "py_in (token x) t = (starts_with (c # cs) (token x) \<or> py_in (token x) cs)"
        using Cons by simp
      have b: "py_in (token old) t = py_in (token old) cs"
        using Cons False by simp
      from l a b IH [OF len] show ?thesis by auto
    qed
  qed
qed

section \<open>One step of the patch\<close>

lemma patch_one_present: "py_in (token new) out \<Longrightarrow> patch_one old new out = out"
  by (simp add: patch_one_def)

lemma patch_one_settled_id: "settled old new out \<Longrightarrow> patch_one old new out = out"
  by (auto simp: settled_def patch_one_def replace_absent)

lemma patch_one_settles:
  assumes "brace_free old" and "brace_free new"
  shows "settled old new (patch_one old new out)"
proof (cases "py_in (token new) out")
  case True
  then show ?thesis by (simp add: settled_def patch_one_def)
next
  case False
  show ?thesis
  proof (cases "py_in (token old) out")
    case True
    with False py_in_replace_token [OF assms(2) assms(1) assms(2), of out] show ?thesis
      by (simp add: settled_def patch_one_def)
  next
    case no: False
    with False show ?thesis by (simp add: settled_def patch_one_def replace_absent)
  qed
qed

lemma patch_one_keeps_settled:
  assumes s: "settled old new out"
    and bf: "brace_free old" "brace_free new" "brace_free old'" "brace_free new'"
    and ne: "new' \<noteq> old"
  shows "settled old new (patch_one old' new' out)"
proof (cases "py_in (token new') out")
  case True
  with s show ?thesis by (simp add: patch_one_def)
next
  case False
  have keep_new: "py_in (token new) out \<Longrightarrow>
      py_in (token new) (py_replace (token old') (token old' @ '', '' @ token new') out)"
    using py_in_replace_token [OF bf(2) bf(3) bf(4), of out] by simp
  have keep_old: "\<not> py_in (token old) out \<Longrightarrow>
      \<not> py_in (token old) (py_replace (token old') (token old' @ '', '' @ token new') out)"
    using py_in_replace_token [OF bf(1) bf(3) bf(4), of out] ne by simp
  from False s keep_new keep_old show ?thesis by (auto simp: settled_def patch_one_def)
qed

section \<open>The whole patch\<close>

lemma patched_pairs:
  "patched repl_map t = fold (\<lambda>(old, new). patch_one old new) (repl_pairs repl_map) t"
proof (induction repl_map arbitrary: t)
  case Nil
  show ?case by (simp add: patched_def repl_pairs_def)
next
  case (Cons a repl_map)
  obtain old news where a: "a = (old, news)" by (cases a)
  have "fold (patch_one old) news t = fold (\<lambda>(old, new). patch_one old new) (map (Pair old) news) t"
    by (simp add: fold_map comp_def)
  with Cons [of "fold (patch_one old) news t"] a show ?case
    by (simp add: patched_def repl_pairs_def)
qed

lemma fold_keeps_settled:
  assumes "settled old new t" and "brace_free old" and "brace_free new"
    and "\<forall>(ko, nw) \<in> set ps. brace_free ko \<and> brace_free nw \<and> nw \<noteq> old"
  shows "settled old new (fold (\<lambda>(old, new). patch_one old new) ps t)"
  using assms
proof (induction ps arbitrary: t)
  case Nil
  then show ?case by simp
next
  case (Cons q ps)
  obtain ko nw where q: "q = (ko, nw)" by (cases q)
  from Cons.prems(4) q have bf: "brace_free ko" "brace_free nw" "nw \<noteq> old" by auto
  have "settled old new (patch_one ko nw t)"
    using Cons.prems(1) Cons.prems(2) Cons.prems(3) bf by (rule patch_one_keeps_settled)
  moreover from Cons.prems(4) have "\<forall>(ko, nw) \<in> set ps. brace_free ko \<and> brace_free nw \<and> nw \<noteq> old"
    by simp
  ultimately have "settled old new (fold (\<lambda>(old, new). patch_one old new) ps (patch_one ko nw t))"
    using Cons.prems(2) Cons.prems(3) by (intro Cons.IH)
  with q show ?case by simp
qed

lemma fold_settles_all:
  assumes "\<forall>(ko, nw) \<in> set ps. brace_free ko \<and> brace_free nw \<and> nw \<notin> keys"
    and "fst ` set ps \<subseteq> keys"
  shows "\<forall>(ko, nw) \<in> set ps. settled ko nw (fold (\<lambda>(old, new). patch_one old new) ps t)"
  using assms
proof (induction ps arbitrary: t)
  case Nil
  show ?case by simp
next
  case (Cons q ps)
  obtain ko nw where q: "q = (ko, nw)" by (cases q)
  from Cons.prems q have bf: "brace_free ko" "brace_free nw" and k: "ko \<in> keys" by auto
  from Cons.prems have rest: "\<forall>(ko, nw) \<in> set ps. brace_free ko \<and> brace_free nw \<and> nw \<notin> keys"
    "fst ` set ps \<subseteq> keys" by auto
  have later: "\<forall>(ko', nw') \<in> set ps. brace_free ko' \<and> brace_free nw' \<and> nw' \<noteq> ko"
    using rest(1) k by auto
  have "settled ko nw (patch_one ko nw t)" using bf by (rule patch_one_settles)
  then have first: "settled ko nw (fold (\<lambda>(old, new). patch_one old new) ps (patch_one ko nw t))"
    using bf later by (rule fold_keeps_settled)
  from Cons.IH [OF rest, of "patch_one ko nw t"] first q show ?case by simp
qed

lemma fold_settled_id:
  "\<forall>(ko, nw) \<in> set ps. settled ko nw t \<Longrightarrow> fold (\<lambda>(old, new). patch_one old new) ps t = t"
proof (induction ps)
  case Nil
  show ?case by simp
next
  case (Cons q ps)
  obtain ko nw where q: "q = (ko, nw)" by (cases q)
  with Cons.prems have "patch_one ko nw t = t" by (simp add: patch_one_settled_id)
  with Cons q show ?case by simp
qed

lemma set_repl_pairs:
  "set (repl_pairs repl_map) = {(old, new). \<exists>news. (old, news) \<in> set repl_map \<and> new \<in> set news}"
  by (auto simp: repl_pairs_def)

text \<open>
  Claim C8, as amended. A step of the patch leaves a formula that already contains the
  token of the new name unchanged, for every formula and every entry. Applying the whole
  patch twice equals applying it once when the reference names contain no braces and no
  new name is also a key of the replacement map.
\<close>

theorem patched_idempotent:
  assumes "\<forall>(old, news) \<in> set repl_map.
             brace_free old \<and> (\<forall>new \<in> set news. brace_free new \<and> new \<notin> fst ` set repl_map)"
  shows "(py_in (token new) out \<longrightarrow> patch_one old new out = out) \<and>
         patched repl_map (patched repl_map t) = patched repl_map t"
proof
  show "py_in (token new) out \<longrightarrow> patch_one old new out = out"
    by (simp add: patch_one_present)
  let ?ps = "repl_pairs repl_map"
  have a: "\<forall>(ko, nw) \<in> set ?ps. brace_free ko \<and> brace_free nw \<and> nw \<notin> fst ` set repl_map"
    using assms unfolding set_repl_pairs by fastforce
  have b: "fst ` set ?ps \<subseteq> fst ` set repl_map"
    unfolding set_repl_pairs by force
  have "\<forall>(ko, nw) \<in> set ?ps. settled ko nw (patched repl_map t)"
    unfolding patched_pairs using a b by (rule fold_settles_all)
  then have "fold (\<lambda>(old, new). patch_one old new) ?ps (patched repl_map t) = patched repl_map t"
    by (rule fold_settled_id)
  then show "patched repl_map (patched repl_map t) = patched repl_map t"
    by (simp add: patched_pairs)
qed

text \<open>
  Claim C8 as stated fails for the whole patch: when a new name is also an old name of an
  earlier entry, the first application puts in a token that the second application
  extends again.
\<close>

theorem patched_idempotent_counterexample:
  "patched [(''A'', [''C'']), (''B'', [''A''])] ''{B}'' = ''{B}, {A}'' \<and>
   patched [(''A'', [''C'']), (''B'', [''A''])] ''{B}, {A}'' = ''{B}, {A}, {C}''"
  by code_simp

lemma ex_patched:
  "patched [(''BudgetRef'', [''BudgetRef-dup-1002''])] ''=SUM({BudgetRef})'' =
     ''=SUM({BudgetRef}, {BudgetRef-dup-1002})''"
  by code_simp

theorem patched_idempotent_witness:
  "brace_free ''BudgetRef'' \<and> brace_free ''BudgetRef-dup-1002'' \<and>
   ''BudgetRef-dup-1002'' \<noteq> ''BudgetRef'' \<and>
   patched [(''BudgetRef'', [''BudgetRef-dup-1002''])] ''=SUM({BudgetRef})'' =
     ''=SUM({BudgetRef}, {BudgetRef-dup-1002})'' \<and>
   patched [(''BudgetRef'', [''BudgetRef-dup-1002''])] ''=SUM({BudgetRef}, {BudgetRef-dup-1002})'' =
     ''=SUM({BudgetRef}, {BudgetRef-dup-1002})''"
proof -
  have h: "\<forall>(old, news) \<in> set [(''BudgetRef'', [''BudgetRef-dup-1002''])].
      brace_free old \<and> (\<forall>new \<in> set news. brace_free new \<and>
        new \<notin> fst ` set [(''BudgetRef'', [''BudgetRef-dup-1002''])])"
    by simp
  from patched_idempotent [OF h, of "''x''" "''''" "''y''" "''=SUM({BudgetRef})''"] ex_patched h
  show ?thesis by simp
qed

section \<open>Row batches\<close>

lemma chunked_Nil: "chunked n [] = []"
  by (simp add: chunked.simps)

lemma chunked_step: "0 < n \<Longrightarrow> xs \<noteq> [] \<Longrightarrow> chunked n xs = take n xs # chunked n (drop n xs)"
  by (subst chunked.simps) simp

lemma concat_chunked: "0 < n \<Longrightarrow> concat (chunked n xs) = xs"
proof (induction n xs rule: chunked.induct)
  case (1 n xs)
  show ?case
  proof (cases "xs = []")
    case True
    then show ?thesis by (simp add: chunked_Nil)
  next
    case False
    with 1 show ?thesis by (simp add: chunked_step)
  qed
qed

lemma chunked_sizes: "0 < n \<Longrightarrow> c \<in> set (chunked n xs) \<Longrightarrow> c \<noteq> [] \<and> length c \<le> n"
proof (induction n xs rule: chunked.induct)
  case (1 n xs)
  show ?case
  proof (cases "xs = []")
    case True
    with "1.prems" show ?thesis by (simp add: chunked_Nil)
  next
    case False
    with "1.prems" have "c = take n xs \<or> c \<in> set (chunked n (drop n xs))"
      by (simp add: chunked_step)
    then show ?thesis
    proof
      assume "c = take n xs"
      with False "1.prems"(1) show ?thesis by simp
    next
      assume "c \<in> set (chunked n (drop n xs))"
      with "1.IH" False "1.prems"(1) show ?thesis by simp
    qed
  qed
qed

lemma send_chunks_all_ok:
  "\<forall>c \<in> set chunks. update_rows R i c = Inr () \<Longrightarrow>
   send_chunks R i chunks = (map (\<lambda>c. Call (UpdateRows i c)) chunks, Inr ())"
  by (induction chunks) simp_all

text \<open>
  When every \<^verbatim>\<open>update_rows\<close> call succeeds, the write phase issues one call
  for each chunk, the chunks are not empty, hold at most 490 rows each and together are
  the changed rows in order; 1000 changed rows go out in three calls of 490, 490 and 20
  rows.
\<close>

theorem write_batches:
  assumes "\<forall>c. update_rows R i c = Inr ()"
  shows "fst (send_chunks R i (chunked 490 rs)) = map (\<lambda>c. Call (UpdateRows i c)) (chunked 490 rs) \<and>
         concat (chunked 490 rs) = rs \<and>
         (\<forall>c \<in> set (chunked 490 rs). c \<noteq> [] \<and> length c \<le> 490) \<and>
         (length rs = 1000 \<longrightarrow> map length (chunked 490 rs) = [490, 490, 20])"
proof -
  have a: "fst (send_chunks R i (chunked 490 rs)) = map (\<lambda>c. Call (UpdateRows i c)) (chunked 490 rs)"
    using send_chunks_all_ok [of "chunked 490 rs" R i] assms by simp
  have b: "concat (chunked 490 rs) = rs" by (rule concat_chunked) simp
  have c: "\<forall>c \<in> set (chunked 490 rs). c \<noteq> [] \<and> length c \<le> 490"
    using chunked_sizes [of 490 _ rs] by simp
  have d: "length rs = 1000 \<longrightarrow> map length (chunked 490 rs) = [490, 490, 20]"
  proof
    assume l: "length rs = 1000"
    then have 1: "rs \<noteq> []" by auto
    from l have 2: "drop 490 rs \<noteq> []" by simp
    from l have 3: "drop 490 (drop 490 rs) \<noteq> []" by simp
    from l have 4: "drop 490 (drop 490 (drop 490 rs)) = []" by simp
    show "map length (chunked 490 rs) = [490, 490, 20]"
      using l 1 2 3 4 by (simp add: chunked_step chunked_Nil)
  qed
  from a b c d show ?thesis by blast
qed

theorem write_batches_witness:
  "update_rows ex_remote 5000 (replicate 7 \<lparr>row_id = 1, cells = []\<rparr>) = Inr () \<and>
   concat (chunked 490 (replicate 7 \<lparr>row_id = 1, cells = []\<rparr>)) = replicate 7 \<lparr>row_id = 1, cells = []\<rparr> \<and>
   fst (send_chunks ex_remote 5000 (chunked 490 (replicate 7 \<lparr>row_id = 1, cells = []\<rparr>))) =
     map (\<lambda>c. Call (UpdateRows 5000 c)) (chunked 490 (replicate 7 \<lparr>row_id = 1, cells = []\<rparr>))"
proof -
  have h: "\<forall>c. update_rows ex_remote 5000 c = Inr ()" by (simp add: ex_remote_def)
  from write_batches [OF h, of "replicate 7 \<lparr>row_id = 1, cells = []\<rparr>"] h show ?thesis by blast
qed

section \<open>The rollover decision\<close>

text \<open>
  Once the sheet is fetched, \<^verbatim>\<open>needs_rollover\<close> returns \<^verbatim>\<open>True\<close> exactly
  when one of the three thresholds trips (error cells, references, cell capacity); when
  the fetch raises, it prints the error and returns \<^verbatim>\<open>False\<close>.
\<close>

theorem needs_rollover_decision:
  "(\<forall>sh. get_sheet R sheet_id = Inr sh \<longrightarrow>
      snd (needs_rollover R cfg sheet_id) =
        (err_cells sh \<ge> ERR_CELL_LIMIT cfg \<or> refs_trip R cfg sheet_id \<or>
         cell_count sh \<ge> ERR_CELLCOUNT_LIMIT cfg)) \<and>
   (\<forall>e. get_sheet R sheet_id = Inl e \<longrightarrow>
      needs_rollover R cfg sheet_id =
        ([Call (GetSheet sheet_id), Log (ErrorChecking sheet_id)], False))"
  by (simp add: needs_rollover_def)

theorem needs_rollover_decision_witness:
  "get_sheet mon_remote 7001 = Inr ex_sheet \<and> err_cells ex_sheet = 0 \<and>
   \<not> refs_trip mon_remote default_thresholds 7001 \<and> cell_count ex_sheet = 2 \<and>
   \<not> snd (needs_rollover mon_remote default_thresholds 7001) \<and>
   get_sheet mon_remote 1 = Inl ApiError \<and>
   needs_rollover mon_remote default_thresholds 1 = ([Call (GetSheet 1), Log (ErrorChecking 1)], False)"
proof -
  have a: "get_sheet mon_remote 7001 = Inr ex_sheet" "get_sheet mon_remote 1 = Inl ApiError"
    by (simp_all add: mon_remote_def)
  have b: "err_cells ex_sheet = 0"
    by (simp add: err_cells_def ex_sheet_def is_err_cell_def starts_with_def)
  have c: "cell_count ex_sheet = 2" by (simp add: cell_count_def ex_sheet_def)
  have d: "\<not> refs_trip mon_remote default_thresholds 7001"
    by (simp add: refs_trip_def mon_remote_def)
  from needs_rollover_decision [of mon_remote 7001 default_thresholds] a b c d
  have "\<not> snd (needs_rollover mon_remote default_thresholds 7001)"
    by (simp add: default_thresholds_def)
  moreover from needs_rollover_decision [of mon_remote 1 default_thresholds] a
  have "needs_rollover mon_remote default_thresholds 1 = ([Call (GetSheet 1), Log (ErrorChecking 1)], False)"
    by simp
  ultimately show ?thesis using a b c d by simp
qed

section \<open>Name normalisation\<close>

text \<open>The name of a copy is normalised to the name of its original.\<close>

lemma normalise_example: "normalise ''Budget - Copy (3)'' = ''Budget''"
  by code_simp

section \<open>The second discovery run, in general\<close>

text \<open>
  A second run of \<^verbatim>\<open>build_index\<close> over an unchanged workspace, started
  from the cache the first run returned, returns that same cache and an empty mapping.
\<close>

theorem second_run_empty_mapping:
  assumes "get_all_sheets_recursive st = Inr all_sheets"
    and "build_index st since_cache = Inr (mapping, last_seen)"
    and "\<forall>s \<in> set all_sheets. \<forall>s' \<in> set all_sheets.
           sid s' = sid s \<longrightarrow> modified_at s' = modified_at s"
  shows "build_index st last_seen = Inr ([], last_seen)"
  using assms by (rule build_index_second_run)

theorem second_run_empty_mapping_witness:
  "build_index ex_store [(''9999'', ''2023-12-31T00:00:00'')] =
     Inr ([(''1001'', [1001, 1002])],
          [(''1001'', ''2024-01-01T00:00:00''), (''1002'', ''2024-01-02T00:00:00'')]) \<and>
   build_index ex_store [(''1001'', ''2024-01-01T00:00:00''), (''1002'', ''2024-01-02T00:00:00'')] =
     Inr ([], [(''1001'', ''2024-01-01T00:00:00''), (''1002'', ''2024-01-02T00:00:00'')])"
proof -
  have h: "\<forall>s \<in> set [\<lparr>sid = 1001, sname = ''Budget Template'', modified_at = ''2024-01-01T00:00:00''\<rparr>,
          \<lparr>sid = 1002, sname = ''Budget - Copy'', modified_at = ''2024-01-02T00:00:00''\<rparr>].
      \<forall>s' \<in> set [\<lparr>sid = 1001, sname = ''Budget Template'', modified_at = ''2024-01-01T00:00:00''\<rparr>,
          \<lparr>sid = 1002, sname = ''Budget - Copy'', modified_at = ''2024-01-02T00:00:00''\<rparr>].
        sid s' = sid s \<longrightarrow> modified_at s' = modified_at s"
    by simp
  from second_run_empty_mapping [OF ex_store_sheets ex_store_first_run h] ex_store_first_run
  show ?thesis by simp
qed

end
